theory Spec2Isabelle
  imports Complex_Main
begin

section \<open>Strings: split, pop, toLowerCase\<close>

text \<open>
  JavaScript strings are modelled as \<open>string\<close> (lists of characters; a character
  stands for one code unit of the source's strings). \<open>str_split c s\<close> is
  \<^verbatim>\<open>s.split(c)\<close> for a one-character separator: it always returns at least one
  segment (\<^verbatim>\<open>"".split(".")\<close> is \<^verbatim>\<open>[""]\<close>).
\<close>

fun str_split :: "char \<Rightarrow> string \<Rightarrow> string list" where
  "str_split c [] = [[]]"
| "str_split c (x # xs) =
     (if x = c then [] # str_split c xs
      else (case str_split c xs of
              [] \<Rightarrow> [[x]]
            | s # ss \<Rightarrow> (x # s) # ss))"

text \<open>\<^verbatim>\<open>Array.prototype.pop\<close>, read for its result only: \<open>None\<close> is \<^verbatim>\<open>undefined\<close>.\<close>

definition pop :: "'a list \<Rightarrow> 'a option" where
  "pop xs = (if xs = [] then None else Some (last xs))"

text \<open>\<^verbatim>\<open>v || ""\<close> on a string or \<^verbatim>\<open>undefined\<close>: both falsy values give the empty string.\<close>

definition or_empty :: "string option \<Rightarrow> string" where
  "or_empty v = (case v of None \<Rightarrow> [] | Some s \<Rightarrow> (if s = [] then [] else s))"

text \<open>\<^verbatim>\<open>path.split(".").pop() || ""\<close>\<close>

definition getFileExtension :: "string \<Rightarrow> string" where
  "getFileExtension path = or_empty (pop (str_split CHR ''.'' path))"

text \<open>\<^verbatim>\<open>filePath.split("/").pop() || ""\<close>\<close>

definition fileNameOf :: "string \<Rightarrow> string" where
  "fileNameOf filePath = or_empty (pop (str_split CHR ''/'' filePath))"

text \<open>
  \<^verbatim>\<open>toLowerCase\<close> on the letters A to Z; every other character of the model's alphabet is
  left as it is.
\<close>

definition lower_char :: "char \<Rightarrow> char" where
  "lower_char c =
     (case map_of (zip ''ABCDEFGHIJKLMNOPQRSTUVWXYZ'' ''abcdefghijklmnopqrstuvwxyz'') c of
        None \<Rightarrow> c
      | Some l \<Rightarrow> l)"

definition toLowerCase :: "string \<Rightarrow> string" where
  "toLowerCase s = map lower_char s"

section \<open>The colour table\<close>

definition jsColor :: string where "jsColor = ''#f7df1e''"
definition tsColor :: string where "tsColor = ''#3178c6''"
definition jsxColor :: string where "jsxColor = ''#00d8ff''"
definition tsxColor :: string where "tsxColor = ''#61dafb''"
definition dartColor :: string where "dartColor = ''#00b4ab''"
definition pythonColor :: string where "pythonColor = ''#3572A5''"
definition cssColor :: string where "cssColor = ''#264de4''"
definition htmlColor :: string where "htmlColor = ''#e34c26''"
definition yamlColor :: string where "yamlColor = ''#cb171e''"
definition pngColor :: string where "pngColor = ''#4CAF50''"
definition glbColor :: string where "glbColor = ''#9C27B0''"
definition mp4Color :: string where "mp4Color = ''#F44336''"
definition mp3Color :: string where "mp3Color = ''#E91E63''"
definition marpColor :: string where "marpColor = ''#FF9800''"
definition mmdColor :: string where "mmdColor = ''#795548''"
definition mdColor :: string where "mdColor = ''#607D8B''"
definition defaultColor :: string where "defaultColor = ''#808080''"

text \<open>The own properties of the object literal \<^verbatim>\<open>colorMap\<close>, in the order written.\<close>

definition colorMap :: "(string \<times> string) list" where
  "colorMap =
     [(''js'', jsColor), (''ts'', tsColor), (''jsx'', jsxColor), (''tsx'', tsxColor),
      (''css'', cssColor), (''html'', htmlColor), (''yaml'', yamlColor),
      (''dart'', dartColor), (''python'', pythonColor),
      (''png'', pngColor), (''glb'', glbColor), (''mp4'', mp4Color), (''mp3'', mp3Color),
      (''marp'', marpColor), (''mmd'', mmdColor), (''md'', mdColor)]"

text \<open>
  What \<^verbatim>\<open>getExtensionColor\<close> can return. \<^verbatim>\<open>colorMap[key]\<close> reads an own property of
  the literal or, failing that, a property inherited from \<^verbatim>\<open>Object.prototype\<close>; an
  inherited value is truthy and not a string, so \<^verbatim>\<open>|| defaultColor\<close> lets it through.
\<close>

datatype color_result = Color string | Inherited string

text \<open>
  The property names of \<^verbatim>\<open>Object.prototype\<close>. After \<^verbatim>\<open>toLowerCase\<close> only the names
  without a capital letter can be hit.
\<close>

definition objectPrototypeKeys :: "string list" where
  "objectPrototypeKeys =
     [''constructor'', ''__proto__'', ''hasOwnProperty'', ''isPrototypeOf'',
      ''propertyIsEnumerable'', ''toLocaleString'', ''toString'', ''valueOf'',
      ''__defineGetter__'', ''__defineSetter__'', ''__lookupGetter__'',
      ''__lookupSetter__'']"

definition lookupProp :: "(string \<times> string) list \<Rightarrow> string \<Rightarrow> color_result option" where
  "lookupProp obj key =
     (case map_of obj key of
        Some v \<Rightarrow> Some (Color v)
      | None \<Rightarrow> (if key \<in> set objectPrototypeKeys then Some (Inherited key) else None))"

text \<open>\<^verbatim>\<open>colorMap[extension.toLowerCase()] || defaultColor\<close>; no colour of the table is empty.\<close>

definition getExtensionColor :: "string \<Rightarrow> color_result" where
  "getExtensionColor extension =
     (case lookupProp colorMap (toLowerCase extension) of
        None \<Rightarrow> Color defaultColor
      | Some (Color v) \<Rightarrow> (if v = [] then Color defaultColor else Color v)
      | Some (Inherited k) \<Rightarrow> Inherited k)"

definition knownExtensions :: "string list" where
  "knownExtensions =
     [''js'', ''ts'', ''jsx'', ''tsx'', ''css'', ''html'', ''yaml'', ''dart'', ''python'',
      ''png'', ''glb'', ''mp4'', ''mp3'', ''marp'', ''mmd'', ''md'']"

section \<open>Data model\<close>

text \<open>
  A value produced by the YAML parser. A mapping is the list of its own enumerable
  properties in the order \<^verbatim>\<open>Object.entries\<close> yields them, with distinct keys.
\<close>

datatype yaml =
    YNull
  | YBool bool
  | YNum int
  | YStr string
  | YSeq "yaml list"
  | YMap "(string \<times> yaml) list"

record position =
  pos_x :: real
  pos_y :: real

text \<open>\<^verbatim>\<open>FileEdge\<close>\<close>

record fileEdge =
  edge_id :: string
  source :: string
  target :: string

text \<open>\<^verbatim>\<open>FileNode\<close>; a field read from the parsed tree is \<open>None\<close> when it is \<^verbatim>\<open>undefined\<close>.\<close>

record nodeData =
  data_label :: string
  data_content :: "yaml option"
  data_agent :: "yaml option"
  data_extension :: string

record nodeStyle =
  style_border :: string
  style_width :: string

record fileNode =
  node_id :: string
  node_type :: string
  node_data :: nodeData
  node_position :: position
  node_style :: nodeStyle

text \<open>
  Errors of the runtime: \<open>RangeError\<close> is the call stack exhausted (the recursion went
  deeper than the depth the caller allows), \<open>TypeError\<close> a property read or a call on a
  value that has none.
\<close>

datatype error = RangeError | TypeError

section \<open>Layout: calculateNodePositions\<close>

definition defaultVerticalSpacing :: real where "defaultVerticalSpacing = 200"
definition defaultHorizontalSpacing :: real where "defaultHorizontalSpacing = 400"
definition defaultNodeWidth :: string where "defaultNodeWidth = ''300px''"
definition STAGGER_OFFSET :: real where "STAGGER_OFFSET = 100"

text \<open>
  The two objects \<^verbatim>\<open>calculateLevel\<close> writes: \<^verbatim>\<open>levels\<close>, keyed by node id, and
  \<^verbatim>\<open>nodesPerLevel\<close>, keyed by level. The keys of \<^verbatim>\<open>nodesPerLevel\<close> are integers, which
  \<^verbatim>\<open>Object.entries\<close> enumerates in ascending order: the association list is kept in that
  order.

  \<^verbatim>\<open>levels\<close> is an object literal: the map holds its own properties, and a read of an id
  that is a property name of \<^verbatim>\<open>Object.prototype\<close> finds the inherited property when the
  object has none of its own. A value stored in \<^verbatim>\<open>levels\<close> is a level or, after
  \<^verbatim>\<open>Math.max\<close> of an inherited function or object, \<^verbatim>\<open>NaN\<close>.
\<close>

datatype levelValue = Level nat | NaN

record layoutState =
  levels :: "string \<rightharpoonup> levelValue"
  nodesPerLevel :: "(nat \<times> string list) list"

definition emptyLayout :: layoutState where
  "emptyLayout = \<lparr>levels = Map.empty, nodesPerLevel = []\<rparr>"

text \<open>
  \<^verbatim>\<open>if (!nodesPerLevel[level]) nodesPerLevel[level] = []; nodesPerLevel[level].push(nodeId)\<close>
\<close>

fun pushLevel :: "nat \<Rightarrow> string \<Rightarrow> (nat \<times> string list) list \<Rightarrow> (nat \<times> string list) list" where
  "pushLevel level nodeId [] = [(level, [nodeId])]"
| "pushLevel level nodeId ((k, ids) # rest) =
     (if level = k then (k, ids @ [nodeId]) # rest
      else if level < k then (level, [nodeId]) # (k, ids) # rest
      else (k, ids) # pushLevel level nodeId rest)"

text \<open>
  The first two statements of \<^verbatim>\<open>calculateLevel\<close>. In
  \<^verbatim>\<open>if (levels[nodeId] !== undefined) levels[nodeId] = Math.max(levels[nodeId], level)\<close>
  \<^verbatim>\<open>else levels[nodeId] = level\<close>
  the read finds an own property (a level, or \<^verbatim>\<open>NaN\<close>, which \<^verbatim>\<open>Math.max\<close> keeps), or a
  property inherited from \<^verbatim>\<open>Object.prototype\<close>, of which \<^verbatim>\<open>Math.max\<close> makes \<^verbatim>\<open>NaN\<close>,
  or nothing. The write creates or updates the own property, except under the name
  \<^verbatim>\<open>__proto__\<close>, whose inherited setter drops a value that is no object.
\<close>

definition recordVisit :: "layoutState \<Rightarrow> string \<Rightarrow> nat \<Rightarrow> layoutState" where
  "recordVisit st nodeId level =
     \<lparr>levels =
        (case levels st nodeId of
           Some (Level known) \<Rightarrow> (levels st)(nodeId \<mapsto> Level (max known level))
         | Some NaN \<Rightarrow> (levels st)(nodeId \<mapsto> NaN)
         | None \<Rightarrow>
             if nodeId \<in> set objectPrototypeKeys
             then (if nodeId = ''__proto__'' then levels st else (levels st)(nodeId \<mapsto> NaN))
             else (levels st)(nodeId \<mapsto> Level level)),
      nodesPerLevel = pushLevel level nodeId (nodesPerLevel st)\<rparr>"

definition childEdges :: "fileEdge list \<Rightarrow> string \<Rightarrow> fileEdge list" where
  "childEdges edges nodeId = filter (\<lambda>edge. source edge = nodeId) edges"

text \<open>
  \<^verbatim>\<open>calculateLevel\<close> and its \<^verbatim>\<open>childEdges.forEach\<close>. The first argument is the depth of
  call stack still available: a call with none left is the \<open>RangeError\<close> of the runtime,
  which leaves every enclosing call.
\<close>

fun calculateLevel :: "nat \<Rightarrow> fileEdge list \<Rightarrow> layoutState \<Rightarrow> string \<Rightarrow> nat \<Rightarrow> error + layoutState"
  and forEachChild :: "nat \<Rightarrow> fileEdge list \<Rightarrow> layoutState \<Rightarrow> fileEdge list \<Rightarrow> nat \<Rightarrow> error + layoutState"
where
  "calculateLevel 0 edges st nodeId level = Inl RangeError"
| "calculateLevel (Suc depth) edges st nodeId level =
     forEachChild depth edges (recordVisit st nodeId level) (childEdges edges nodeId) level"
| "forEachChild depth edges st [] level = Inr st"
| "forEachChild depth edges st (edge # rest) level =
     (case calculateLevel depth edges st (target edge) (level + 1) of
        Inl e \<Rightarrow> Inl e
      | Inr st' \<Rightarrow> forEachChild depth edges st' rest level)"

text \<open>
  \<^verbatim>\<open>nodes.filter((node) => !edges.some((edge) => edge.target === node.id)).map((node) => node.id)\<close>
\<close>

definition startNodes :: "fileNode list \<Rightarrow> fileEdge list \<Rightarrow> string list" where
  "startNodes nodes edges =
     map node_id (filter (\<lambda>node. \<not> list_ex (\<lambda>edge. target edge = node_id node) edges) nodes)"

text \<open>\<^verbatim>\<open>startNodes.forEach((nodeId) => calculateLevel(nodeId, 0))\<close>\<close>

fun forEachStart :: "nat \<Rightarrow> fileEdge list \<Rightarrow> layoutState \<Rightarrow> string list \<Rightarrow> error + layoutState" where
  "forEachStart depth edges st [] = Inr st"
| "forEachStart depth edges st (nodeId # rest) =
     (case calculateLevel depth edges st nodeId 0 of
        Inl e \<Rightarrow> Inl e
      | Inr st' \<Rightarrow> forEachStart depth edges st' rest)"

text \<open>The state of \<^verbatim>\<open>levels\<close> and \<^verbatim>\<open>nodesPerLevel\<close> when the level computation is over.\<close>

definition computeLevels :: "nat \<Rightarrow> fileNode list \<Rightarrow> fileEdge list \<Rightarrow> error + layoutState" where
  "computeLevels depth nodes edges =
     forEachStart depth edges emptyLayout (startNodes nodes edges)"

text \<open>
  The inner \<^verbatim>\<open>nodeIds.forEach((nodeId, index) => ...)\<close> of the placement loop, from
  \<open>index\<close> on.
\<close>

fun placeNodes ::
  "real \<Rightarrow> real \<Rightarrow> nat \<Rightarrow> real \<Rightarrow> nat \<Rightarrow> string list \<Rightarrow> (string \<rightharpoonup> position) \<Rightarrow> (string \<rightharpoonup> position)"
where
  "placeNodes hs vs levelNum startX index [] positions = positions"
| "placeNodes hs vs levelNum startX index (nodeId # rest) positions =
     (let staggerX = (if levelNum mod 2 = 0 then 0 else STAGGER_OFFSET)
      in placeNodes hs vs levelNum startX (index + 1) rest
           (positions(nodeId \<mapsto>
              \<lparr>pos_x = startX + real index * hs + staggerX,
               pos_y = real levelNum * vs\<rparr>)))"

text \<open>The body of \<^verbatim>\<open>Object.entries(nodesPerLevel).forEach(([level, nodeIds]) => ...)\<close>.\<close>

definition placeLevel ::
  "real \<Rightarrow> real \<Rightarrow> nat \<times> string list \<Rightarrow> (string \<rightharpoonup> position) \<Rightarrow> (string \<rightharpoonup> position)"
where
  "placeLevel hs vs entry positions =
     (let levelNum = fst entry;
          nodeIds = snd entry;
          totalWidth = (real (length nodeIds) - 1) * hs;
          startX = - totalWidth / 2
      in placeNodes hs vs levelNum startX 0 nodeIds positions)"

fun placeLevels ::
  "real \<Rightarrow> real \<Rightarrow> (nat \<times> string list) list \<Rightarrow> (string \<rightharpoonup> position) \<Rightarrow> (string \<rightharpoonup> position)"
where
  "placeLevels hs vs [] positions = positions"
| "placeLevels hs vs (entry # rest) positions =
     placeLevels hs vs rest (placeLevel hs vs entry positions)"

text \<open>
  \<^verbatim>\<open>calculateNodePositions\<close>, with the horizontal and the vertical spacing as parameters:
  the two copies of the function differ in these constants only (400 and 200 from the
  constants module in one, 500 and 250 in the other).
\<close>

definition calculateNodePositions ::
  "nat \<Rightarrow> real \<Rightarrow> real \<Rightarrow> fileNode list \<Rightarrow> fileEdge list \<Rightarrow> error + (string \<rightharpoonup> position)"
where
  "calculateNodePositions depth hs vs nodes edges =
     (case computeLevels depth nodes edges of
        Inl e \<Rightarrow> Inl e
      | Inr st \<Rightarrow> Inr (placeLevels hs vs (nodesPerLevel st) Map.empty))"

section \<open>The flattener with processDirectory\<close>

text \<open>
  Decimal notation of an array or string index, as \<^verbatim>\<open>Object.entries\<close> names it.
\<close>

fun natToString :: "nat \<Rightarrow> string" where
  "natToString n =
     (if n < 10 then [''0123456789'' ! n]
      else natToString (n div 10) @ [''0123456789'' ! (n mod 10)])"

definition indexed :: "'a list \<Rightarrow> (string \<times> 'a) list" where
  "indexed xs = map (\<lambda>i. (natToString i, xs ! i)) [0 ..< length xs]"

text \<open>
  \<^verbatim>\<open>Object.entries(v)\<close>: a \<open>TypeError\<close> on \<^verbatim>\<open>null\<close>, nothing for a number or a boolean,
  the characters of a string and the elements of an array under their indices, the
  properties of a mapping.
\<close>

fun objectEntries :: "yaml \<Rightarrow> error + (string \<times> yaml) list" where
  "objectEntries YNull = Inl TypeError"
| "objectEntries (YBool b) = Inr []"
| "objectEntries (YNum n) = Inr []"
| "objectEntries (YStr s) = Inr (indexed (map (\<lambda>c. YStr [c]) s))"
| "objectEntries (YSeq vs) = Inr (indexed vs)"
| "objectEntries (YMap m) = Inr m"

text \<open>
  The type guard \<^verbatim>\<open>isYamlFile\<close>: an object, not \<^verbatim>\<open>null\<close>, with the four properties. An
  array is an object too, but none of the four names is a property of an array.
\<close>

fun isYamlFile :: "yaml \<Rightarrow> bool" where
  "isYamlFile (YMap m) =
     (''content'' \<in> fst ` set m \<and> ''dependency'' \<in> fst ` set m \<and>
      ''agent'' \<in> fst ` set m \<and> ''api'' \<in> fst ` set m)"
| "isYamlFile _ = False"

text \<open>
  What \<^verbatim>\<open>processDirectory\<close> mutates: the three containers of its caller, and the number
  of values \<^verbatim>\<open>Math.random\<close> has handed out so far. The random source is a parameter
  \<open>rnd\<close>: its \<open>i\<close>-th value is \<open>rnd i\<close>.
\<close>

record flattenState =
  fs_nodes :: "fileNode list"
  fs_edges :: "fileEdge list"
  fs_agents :: "yaml option list"
  fs_drawn :: nat

definition emptyFlatten :: flattenState where
  "emptyFlatten = \<lparr>fs_nodes = [], fs_edges = [], fs_agents = [], fs_drawn = 0\<rparr>"

text \<open>
  \<^verbatim>\<open>Set.prototype.add\<close>, the set kept in insertion order. \<^verbatim>\<open>undefined\<close>, \<^verbatim>\<open>null\<close>, booleans,
  numbers and strings are compared by value; an array or a mapping is an object of its
  own, equal to no member added before.
\<close>

fun isPrimitive :: "yaml option \<Rightarrow> bool" where
  "isPrimitive (Some (YSeq vs)) = False"
| "isPrimitive (Some (YMap m)) = False"
| "isPrimitive _ = True"

definition setAdd :: "yaml option \<Rightarrow> yaml option list \<Rightarrow> yaml option list" where
  "setAdd v s = (if isPrimitive v \<and> v \<in> set s then s else s @ [v])"

text \<open>
  \<^verbatim>\<open>content.dependency.forEach((dep) => edges.push(...))\<close>. The model covers the entries
  the \<^verbatim>\<open>YamlFile\<close> interface declares, strings; an entry of another kind would be stored
  in the edge as it is, which \<open>fileEdge\<close> cannot hold: \<open>Unsupported\<close> marks the
  input as outside the model.
\<close>

datatype 'a outcome = Threw error | Unsupported | Done 'a

fun pushDependencyEdges :: "string \<Rightarrow> yaml list \<Rightarrow> fileEdge list \<Rightarrow> fileEdge list outcome" where
  "pushDependencyEdges filePath [] edges = Done edges"
| "pushDependencyEdges filePath (YStr dep # rest) edges =
     pushDependencyEdges filePath rest
       (edges @ [\<lparr>edge_id = filePath @ ''-'' @ dep, source = filePath, target = dep\<rparr>])"
| "pushDependencyEdges filePath (other # rest) edges = Unsupported"

text \<open>The branch of \<^verbatim>\<open>processDirectory\<close> for a value that passes \<^verbatim>\<open>isYamlFile\<close>.\<close>

definition processFile ::
  "(nat \<Rightarrow> real) \<Rightarrow> (string \<times> yaml) list \<Rightarrow> string \<Rightarrow> flattenState \<Rightarrow> flattenState outcome"
where
  "processFile rnd file parentPath st =
     (let filePath = parentPath;
          fileName = fileNameOf filePath;
          node = \<lparr>node_id = filePath,
                  node_type = ''default'',
                  node_data = \<lparr>data_label = fileName,
                               data_content = map_of file ''content'',
                               data_agent = map_of file ''agent'',
                               data_extension = getFileExtension fileName\<rparr>,
                  node_position = \<lparr>pos_x = rnd (fs_drawn st) * 500,
                                   pos_y = rnd (fs_drawn st + 1) * 500\<rparr>,
                  node_style = \<lparr>style_border = ''1px solid #ddd'', style_width = defaultNodeWidth\<rparr>\<rparr>;
          nodes' = fs_nodes st @ [node];
          agents' = setAdd (map_of file ''agent'') (fs_agents st)
      in case map_of file ''dependency'' of
           Some (YSeq deps) \<Rightarrow>
             (case pushDependencyEdges filePath deps (fs_edges st) of
                Done edges' \<Rightarrow>
                  Done \<lparr>fs_nodes = nodes', fs_edges = edges', fs_agents = agents',
                        fs_drawn = fs_drawn st + 2\<rparr>
              | Threw e \<Rightarrow> Threw e
              | Unsupported \<Rightarrow> Unsupported)
         | _ \<Rightarrow> Threw TypeError)"

text \<open>
  \<^verbatim>\<open>processDirectory\<close> and the \<^verbatim>\<open>forEach\<close> over the entries of a directory. The first
  argument is the depth of call stack still available, as in \<open>calculateLevel\<close>.
\<close>

fun processDirectory ::
    "nat \<Rightarrow> (nat \<Rightarrow> real) \<Rightarrow> yaml \<Rightarrow> string \<Rightarrow> flattenState \<Rightarrow> flattenState outcome"
  and forEachEntry ::
    "nat \<Rightarrow> (nat \<Rightarrow> real) \<Rightarrow> string \<Rightarrow> (string \<times> yaml) list \<Rightarrow> flattenState \<Rightarrow> flattenState outcome"
where
  "processDirectory 0 rnd content parentPath st = Threw RangeError"
| "processDirectory (Suc depth) rnd content parentPath st =
     (if isYamlFile content then
        (case content of
           YMap file \<Rightarrow> processFile rnd file parentPath st
         | _ \<Rightarrow> Threw TypeError)
      else
        (case objectEntries content of
           Inl e \<Rightarrow> Threw e
         | Inr entries \<Rightarrow> forEachEntry depth rnd parentPath entries st))"
| "forEachEntry depth rnd parentPath [] st = Done st"
| "forEachEntry depth rnd parentPath ((key, v) # rest) st =
     (let newPath = (if parentPath \<noteq> [] then parentPath @ ''/'' @ key else key)
      in case processDirectory depth rnd v newPath st of
           Done st' \<Rightarrow> forEachEntry depth rnd parentPath rest st'
         | Threw e \<Rightarrow> Threw e
         | Unsupported \<Rightarrow> Unsupported)"

text \<open>What \<^verbatim>\<open>generateNodesAndEdges\<close> returns.\<close>

record graph =
  g_nodes :: "fileNode list"
  g_edges :: "fileEdge list"
  g_agents :: "yaml option list"

text \<open>
  \<^verbatim>\<open>nodes.forEach((node) => { if (positions[node.id]) node.position = positions[node.id] })\<close>
  The position map holds the own properties of \<^verbatim>\<open>positions\<close>. The ids read here are the
  node ids, paths that start with \<^verbatim>\<open>src\<close>, under which \<^verbatim>\<open>Object.prototype\<close> has nothing
  to inherit.
\<close>

definition applyPositions :: "(string \<rightharpoonup> position) \<Rightarrow> fileNode list \<Rightarrow> fileNode list" where
  "applyPositions positions ns =
     map (\<lambda>node. case positions (node_id node) of
                   Some p \<Rightarrow> node\<lparr>node_position := p\<rparr>
                 | None \<Rightarrow> node) ns"

text \<open>
  \<^verbatim>\<open>yamlData.src\<close>: reading a property of \<^verbatim>\<open>null\<close> throws; a value that is not a mapping
  has no such property and gives \<^verbatim>\<open>undefined\<close>.
\<close>

fun srcOf :: "yaml \<Rightarrow> error + yaml option" where
  "srcOf YNull = Inl TypeError"
| "srcOf (YMap m) = Inr (map_of m ''src'')"
| "srcOf _ = Inr None"

definition layoutGraph ::
  "nat \<Rightarrow> real \<Rightarrow> real \<Rightarrow> flattenState \<Rightarrow> graph outcome"
where
  "layoutGraph depth hs vs st =
     (case calculateNodePositions depth hs vs (fs_nodes st) (fs_edges st) of
        Inl e \<Rightarrow> Threw e
      | Inr positions \<Rightarrow>
          Done \<lparr>g_nodes = applyPositions positions (fs_nodes st),
                g_edges = fs_edges st,
                g_agents = fs_agents st\<rparr>)"

text \<open>
  \<^verbatim>\<open>generateNodesAndEdges\<close> over \<^verbatim>\<open>processDirectory\<close>. With no \<^verbatim>\<open>src\<close> the call passes
  \<^verbatim>\<open>undefined\<close>, on which \<^verbatim>\<open>Object.entries\<close> throws.
\<close>

definition generateNodesAndEdges :: "nat \<Rightarrow> (nat \<Rightarrow> real) \<Rightarrow> yaml \<Rightarrow> graph outcome" where
  "generateNodesAndEdges depth rnd yamlData =
     (case srcOf yamlData of
        Inl e \<Rightarrow> Threw e
      | Inr None \<Rightarrow> (if depth = 0 then Threw RangeError else Threw TypeError)
      | Inr (Some src) \<Rightarrow>
          (case processDirectory depth rnd src ''src'' emptyFlatten of
             Done st \<Rightarrow>
               layoutGraph depth defaultHorizontalSpacing defaultVerticalSpacing st
           | Threw e \<Rightarrow> Threw e
           | Unsupported \<Rightarrow> Unsupported))"

section \<open>The second copy of the parser module\<close>

text \<open>
  The repository holds a second \<^verbatim>\<open>generateNodesAndEdges\<close>, which always creates the node
  of \<^verbatim>\<open>src/structure.yaml\<close>, walks two levels of the tree only and points each edge from
  the dependency to the dependent file. Its names carry the suffix \<open>2\<close> here.
\<close>

text \<open>
  A property read \<^verbatim>\<open>v.k\<close> for the names this module reads (\<^verbatim>\<open>structure.yaml\<close>,
  \<^verbatim>\<open>content\<close>, \<^verbatim>\<open>agent\<close>, \<^verbatim>\<open>dependency\<close>), none of which a string, an array, a number or
  a boolean has: \<^verbatim>\<open>undefined\<close> and \<^verbatim>\<open>null\<close> throw.
\<close>

fun getProp :: "yaml option \<Rightarrow> string \<Rightarrow> error + yaml option" where
  "getProp None k = Inl TypeError"
| "getProp (Some YNull) k = Inl TypeError"
| "getProp (Some (YMap m)) k = Inr (map_of m k)"
| "getProp (Some v) k = Inr None"

text \<open>Optional chaining \<^verbatim>\<open>v?.k\<close>.\<close>

fun getPropOpt :: "yaml option \<Rightarrow> string \<Rightarrow> yaml option" where
  "getPropOpt (Some (YMap m)) k = map_of m k"
| "getPropOpt v k = None"

text \<open>\<^verbatim>\<open>"content" in value\<close>: a \<open>TypeError\<close> when the right operand is not an object.\<close>

fun hasContent :: "yaml \<Rightarrow> error + bool" where
  "hasContent (YMap m) = Inr (''content'' \<in> fst ` set m)"
| "hasContent (YSeq vs) = Inr False"
| "hasContent v = Inl TypeError"

text \<open>\<^verbatim>\<open>typeof value.content === "string"\<close>\<close>

fun isStringValue :: "yaml option \<Rightarrow> bool" where
  "isStringValue (Some (YStr s)) = True"
| "isStringValue v = False"

text \<open>
  The guard \<^verbatim>\<open>fileData.dependency && fileData.dependency.length > 0\<close> followed by
  \<^verbatim>\<open>fileData.dependency.forEach\<close>, read for the list the loop runs over: nothing for a
  falsy value, for a value without \<^verbatim>\<open>length\<close> and for an empty array; a non-empty string
  passes the guard and has no \<^verbatim>\<open>forEach\<close>. A mapping with a property \<^verbatim>\<open>length\<close> of its
  own is outside the model.
\<close>

fun dependencyList :: "yaml option \<Rightarrow> yaml list outcome" where
  "dependencyList None = Done []"
| "dependencyList (Some YNull) = Done []"
| "dependencyList (Some (YBool b)) = Done []"
| "dependencyList (Some (YNum n)) = Done []"
| "dependencyList (Some (YStr s)) = (if s = [] then Done [] else Threw TypeError)"
| "dependencyList (Some (YSeq deps)) = Done deps"
| "dependencyList (Some (YMap m)) =
     (if ''length'' \<in> fst ` set m then Unsupported else Done [])"

text \<open>
  The loop of the single-file branch: every entry becomes an edge from the dependency
  to the file. As in \<open>pushDependencyEdges\<close>, an entry that is not a string is outside
  the model.
\<close>

fun pushFileEdges2 :: "string \<Rightarrow> yaml list \<Rightarrow> fileEdge list \<Rightarrow> fileEdge list outcome" where
  "pushFileEdges2 fullPath [] es = Done es"
| "pushFileEdges2 fullPath (YStr dep # rest) es =
     pushFileEdges2 fullPath rest
       (es @ [\<lparr>edge_id = fullPath @ ''-'' @ dep, source = dep, target = fullPath\<rparr>])"
| "pushFileEdges2 fullPath (other # rest) es = Unsupported"

text \<open>
  The loop of the directory branch: only the paths with \<^verbatim>\<open>dep.startsWith("src/")\<close>; an
  entry that is not a string has no \<^verbatim>\<open>startsWith\<close>.
\<close>

definition startsWith :: "string \<Rightarrow> string \<Rightarrow> bool" where
  "startsWith s p = (take (length p) s = p)"

fun pushDirEdges2 :: "string \<Rightarrow> yaml list \<Rightarrow> fileEdge list \<Rightarrow> fileEdge list outcome" where
  "pushDirEdges2 fullPath [] es = Done es"
| "pushDirEdges2 fullPath (YStr dep # rest) es =
     pushDirEdges2 fullPath rest
       (if startsWith dep ''src/''
        then es @ [\<lparr>edge_id = fullPath @ ''-'' @ dep, source = dep, target = fullPath\<rparr>]
        else es)"
| "pushDirEdges2 fullPath (other # rest) es = Threw TypeError"

text \<open>The node literal both branches build.\<close>

definition mkNode2 :: "string \<Rightarrow> string \<Rightarrow> yaml option \<Rightarrow> string \<Rightarrow> fileNode" where
  "mkNode2 fullPath name fileData ext =
     \<lparr>node_id = fullPath,
      node_type = ''default'',
      node_data = \<lparr>data_label = name,
                   data_content = getPropOpt fileData ''content'',
                   data_agent = getPropOpt fileData ''agent'',
                   data_extension = ext\<rparr>,
      node_position = \<lparr>pos_x = 0, pos_y = 0\<rparr>,
      node_style = \<lparr>style_border = ''none'', style_width = ''420px''\<rparr>\<rparr>"

text \<open>One file: the node, its agent, then its edges through the loop \<open>push\<close>.\<close>

definition addFile2 ::
  "(string \<Rightarrow> yaml list \<Rightarrow> fileEdge list \<Rightarrow> fileEdge list outcome) \<Rightarrow>
   string \<Rightarrow> string \<Rightarrow> yaml \<Rightarrow> flattenState \<Rightarrow> flattenState outcome"
where
  "addFile2 push fullPath name fileData st =
     (let nodes' = fs_nodes st @ [mkNode2 fullPath name (Some fileData) (getFileExtension name)];
          agents' = setAdd (getPropOpt (Some fileData) ''agent'') (fs_agents st)
      in case getProp (Some fileData) ''dependency'' of
           Inl e \<Rightarrow> Threw e
         | Inr dependency \<Rightarrow>
             (case dependencyList dependency of
                Threw e \<Rightarrow> Threw e
              | Unsupported \<Rightarrow> Unsupported
              | Done deps \<Rightarrow>
                  (case push fullPath deps (fs_edges st) of
                     Threw e \<Rightarrow> Threw e
                   | Unsupported \<Rightarrow> Unsupported
                   | Done edges' \<Rightarrow>
                       Done (st\<lparr>fs_nodes := nodes', fs_edges := edges',
                                fs_agents := agents'\<rparr>))))"

text \<open>The inner \<^verbatim>\<open>Object.entries(value).forEach(([filename, fileData]) => ...)\<close>.\<close>

fun forEachFile2 :: "string \<Rightarrow> (string \<times> yaml) list \<Rightarrow> flattenState \<Rightarrow> flattenState outcome" where
  "forEachFile2 key [] st = Done st"
| "forEachFile2 key ((filename, fileData) # rest) st =
     (case addFile2 pushDirEdges2 (''src/'' @ key @ ''/'' @ filename) filename fileData st of
        Done st' \<Rightarrow> forEachFile2 key rest st'
      | Threw e \<Rightarrow> Threw e
      | Unsupported \<Rightarrow> Unsupported)"

text \<open>The body of the outer \<^verbatim>\<open>Object.entries(yamlData.src).forEach(([key, value]) => ...)\<close>.\<close>

definition processEntry2 :: "string \<Rightarrow> yaml \<Rightarrow> flattenState \<Rightarrow> flattenState outcome" where
  "processEntry2 key v st =
     (if key = ''structure.yaml'' then Done st
      else case hasContent v of
             Inl e \<Rightarrow> Threw e
           | Inr c \<Rightarrow>
               if c \<and> isStringValue (getPropOpt (Some v) ''content'')
               then addFile2 pushFileEdges2 (''src/'' @ key) key v st
               else (case objectEntries v of
                       Inl e \<Rightarrow> Threw e
                     | Inr files \<Rightarrow> forEachFile2 key files st))"

fun forEachEntry2 :: "(string \<times> yaml) list \<Rightarrow> flattenState \<Rightarrow> flattenState outcome" where
  "forEachEntry2 [] st = Done st"
| "forEachEntry2 ((key, v) # rest) st =
     (case processEntry2 key v st of
        Done st' \<Rightarrow> forEachEntry2 rest st'
      | Threw e \<Rightarrow> Threw e
      | Unsupported \<Rightarrow> Unsupported)"

text \<open>
  The second \<^verbatim>\<open>generateNodesAndEdges\<close>; its \<^verbatim>\<open>calculateNodePositions\<close> spaces the nodes by
  500 and 250. \<open>depth\<close> is the call stack available to the level computation.
\<close>

definition generateNodesAndEdges2 :: "nat \<Rightarrow> yaml \<Rightarrow> graph outcome" where
  "generateNodesAndEdges2 depth yamlData =
     (case srcOf yamlData of
        Inl e \<Rightarrow> Threw e
      | Inr None \<Rightarrow> Threw TypeError
      | Inr (Some src) \<Rightarrow>
          (case getProp (Some src) ''structure.yaml'' of
             Inl e \<Rightarrow> Threw e
           | Inr structure \<Rightarrow>
               (let structureNode =
                      (mkNode2 ''src/structure.yaml'' ''structure.yaml'' structure ''yaml'');
                    st = \<lparr>fs_nodes = [structureNode], fs_edges = [],
                          fs_agents = setAdd (getPropOpt structure ''agent'') [],
                          fs_drawn = 0\<rparr>
                in case objectEntries src of
                     Inl e \<Rightarrow> Threw e
                   | Inr entries \<Rightarrow>
                       (case forEachEntry2 entries st of
                          Done st' \<Rightarrow> layoutGraph depth 500 250 st'
                        | Threw e \<Rightarrow> Threw e
                        | Unsupported \<Rightarrow> Unsupported))))"

text \<open>The second \<^verbatim>\<open>getExtensionColor\<close>: nine entries, no \<^verbatim>\<open>toLowerCase\<close>.\<close>

definition colors2 :: "(string \<times> string) list" where
  "colors2 =
     [(''png'', ''#4CAF50''), (''glb'', ''#2196F3''), (''css'', ''#9C27B0''),
      (''marp'', ''#FF9800''), (''mmd'', ''#795548''), (''mp4'', ''#F44336''),
      (''mp3'', ''#E91E63''), (''md'', ''#607D8B''), (''yaml'', ''#FFC107'')]"

definition getExtensionColor2 :: "string \<Rightarrow> color_result" where
  "getExtensionColor2 extension =
     (case lookupProp colors2 extension of
        None \<Rightarrow> Color ''#9E9E9E''
      | Some (Color v) \<Rightarrow> (if v = [] then Color ''#9E9E9E'' else Color v)
      | Some (Inherited k) \<Rightarrow> Inherited k)"

section \<open>Graph notions of the statements\<close>

text \<open>The edges as a relation on ids, from source to target.\<close>

definition edgeRel :: "fileEdge list \<Rightarrow> (string \<times> string) set" where
  "edgeRel es = set (map (\<lambda>edge. (source edge, target edge)) es)"

text \<open>A node from which a cycle of edges can be reached.\<close>

definition reachesCycle :: "fileEdge list \<Rightarrow> string \<Rightarrow> bool" where
  "reachesCycle es n = (\<exists>c. (n, c) \<in> (edgeRel es)\<^sup>* \<and> (c, c) \<in> (edgeRel es)\<^sup>+)"

text \<open>
  \<open>(k, n) \<in> reachedAt es roots\<close>: some path of \<open>k\<close> edges leads from a start node to
  \<open>n\<close>; these are the depths at which a traversal from the start nodes reaches \<open>n\<close>.
\<close>

inductive_set reachedAt :: "fileEdge list \<Rightarrow> string list \<Rightarrow> (nat \<times> string) set"
  for es :: "fileEdge list" and roots :: "string list"
where
  root: "r \<in> set roots \<Longrightarrow> (0, r) \<in> reachedAt es roots"
| step: "(k, a) \<in> reachedAt es roots \<Longrightarrow> e \<in> set es \<Longrightarrow> source e = a
         \<Longrightarrow> (Suc k, target e) \<in> reachedAt es roots"

definition depthsOf :: "fileEdge list \<Rightarrow> string list \<Rightarrow> string \<Rightarrow> nat set" where
  "depthsOf es roots n = {k. (k, n) \<in> reachedAt es roots}"

text \<open>The visits \<^verbatim>\<open>nodesPerLevel\<close> has logged: the id \<open>n\<close> was pushed under level \<open>k\<close>.\<close>

definition visits :: "(nat \<times> string list) list \<Rightarrow> (nat \<times> string) set" where
  "visits npl = {(k, n). \<exists>ids. (k, ids) \<in> set npl \<and> n \<in> set ids}"

text \<open>A call of \<open>calculateLevel\<close> on \<open>n\<close> returns with \<open>d\<close> frames of stack, in any state.\<close>

definition returns :: "nat \<Rightarrow> fileEdge list \<Rightarrow> string \<Rightarrow> bool" where
  "returns d es n = (\<forall>st l. \<exists>st'. calculateLevel d es st n l = Inr st')"

text \<open>
  The invariant of \<open>recordVisit\<close>: \<^verbatim>\<open>levels\<close> holds, for an id that has been logged,
  the greatest level under which it has been logged, unless the id is a property name
  of \<^verbatim>\<open>Object.prototype\<close>: then it holds \<^verbatim>\<open>NaN\<close>, and nothing under \<^verbatim>\<open>__proto__\<close>.
\<close>

definition levelsInv :: "layoutState \<Rightarrow> bool" where
  "levelsInv st =
     (\<forall>n. levels st n =
        (if {k. (k, n) \<in> visits (nodesPerLevel st)} = {} \<or> n = ''__proto__'' then None
         else if n \<in> set objectPrototypeKeys then Some NaN
         else Some (Level (Max {k. (k, n) \<in> visits (nodesPerLevel st)}))))"

text \<open>The visit \<open>p\<close> has been followed along every edge that leaves its node.\<close>

definition closedAt :: "fileEdge list \<Rightarrow> (nat \<times> string) set \<Rightarrow> nat \<times> string \<Rightarrow> bool" where
  "closedAt es V p = (\<forall>e \<in> set es. source e = snd p \<longrightarrow> (Suc (fst p), target e) \<in> V)"

text \<open>
  The placement of one id: \<open>lastIndex ids n\<close> is the index of the last occurrence of
  \<open>n\<close> in \<open>ids\<close>, \<open>slot\<close> the position the placement loop computes for an index
  in a level of a given length, \<open>finalEntry\<close> the last level of the list that holds
  \<open>n\<close>, whose pass writes the position that stays.
\<close>

fun lastIndex :: "string list \<Rightarrow> string \<Rightarrow> nat" where
  "lastIndex [] n = 0"
| "lastIndex (a # as) n = (if n \<in> set as then Suc (lastIndex as n) else 0)"

definition slot :: "real \<Rightarrow> real \<Rightarrow> nat \<Rightarrow> nat \<Rightarrow> nat \<Rightarrow> position" where
  "slot hs vs k len i =
     \<lparr>pos_x = - ((real len - 1) * hs) / 2 + real i * hs
               + (if k mod 2 = 0 then 0 else STAGGER_OFFSET),
      pos_y = real k * vs\<rparr>"

fun finalEntry :: "(nat \<times> string list) list \<Rightarrow> string \<Rightarrow> (nat \<times> string list) option" where
  "finalEntry [] n = None"
| "finalEntry (entry # rest) n =
     (case finalEntry rest n of
        Some later \<Rightarrow> Some later
      | None \<Rightarrow> (if n \<in> set (snd entry) then Some entry else None))"

text \<open>
  The level at which an id is finally placed: the level of the last pass of the
  placement loop that writes its position.
\<close>

definition finalLevel :: "(nat \<times> string list) list \<Rightarrow> string \<Rightarrow> nat option" where
  "finalLevel npl n = map_option fst (finalEntry npl n)"


text \<open>
  Inputs for the layout, for concrete instances: a node with a given id, and the edge
  \<open>processDirectory\<close> pushes for the file \<open>a\<close> and its dependency \<open>b\<close>.
\<close>

definition nodeWithId :: "string \<Rightarrow> fileNode" where
  "nodeWithId i = mkNode2 i (fileNameOf i) None (getFileExtension (fileNameOf i))"

definition edgeFromTo :: "string \<Rightarrow> string \<Rightarrow> fileEdge" where
  "edgeFromTo a b = \<lparr>edge_id = a @ ''-'' @ b, source = a, target = b\<rparr>"

text \<open>A root with a dependency cycle behind it: a to b, b to c, c back to b.\<close>

definition cyclicNodes :: "fileNode list" where
  "cyclicNodes = [nodeWithId ''src/a.ts'', nodeWithId ''src/b.ts'', nodeWithId ''src/c.ts'']"

definition cyclicEdges :: "fileEdge list" where
  "cyclicEdges =
     [edgeFromTo ''src/a.ts'' ''src/b.ts'', edgeFromTo ''src/b.ts'' ''src/c.ts'',
      edgeFromTo ''src/c.ts'' ''src/b.ts'']"

text \<open>A diamond: r to a and b, both to c.\<close>

definition diamondNodes :: "fileNode list" where
  "diamondNodes = [nodeWithId ''r'', nodeWithId ''a'', nodeWithId ''b'', nodeWithId ''c'']"

definition diamondEdges :: "fileEdge list" where
  "diamondEdges =
     [edgeFromTo ''r'' ''a'', edgeFromTo ''r'' ''b'', edgeFromTo ''a'' ''c'',
      edgeFromTo ''b'' ''c'']"







section \<open>Notions of the statements about the flattener\<close>

text \<open>The empty input tree \<^verbatim>\<open>{src: {}}\<close>.\<close>

definition emptyTree :: yaml where
  "emptyTree = YMap [(''src'', YMap [])]"

text \<open>
  A value in which \<open>processDirectory\<close> finds nothing to emit and nothing to fail on: a
  number, a boolean, the empty string, or an array or a mapping (not of the shape of a
  file) of such values.
\<close>

fun skippable :: "yaml \<Rightarrow> bool" where
  "skippable YNull = False"
| "skippable (YBool b) = True"
| "skippable (YNum n) = True"
| "skippable (YStr s) = (s = [])"
| "skippable (YSeq vs) = (\<forall>v \<in> set vs. skippable v)"
| "skippable (YMap m) = (\<not> isYamlFile (YMap m) \<and> (\<forall>v \<in> snd ` set m. skippable v))"

text \<open>The depth of nesting of a value: the call stack its traversal needs.\<close>

fun nesting :: "yaml \<Rightarrow> nat" where
  "nesting (YSeq vs) = Suc (fold max (map nesting vs) 0)"
| "nesting (YMap m) = Suc (fold max (map (\<lambda>kv. nesting (snd kv)) m) 0)"
| "nesting v = 1"


text \<open>A file record as the \<^verbatim>\<open>YamlFile\<close> interface declares it.\<close>

definition yamlFile :: "string \<Rightarrow> string list \<Rightarrow> string \<Rightarrow> yaml" where
  "yamlFile c deps a =
     YMap [(''content'', YStr c), (''dependency'', YSeq (map YStr deps)),
           (''agent'', YStr a), (''api'', YSeq [])]"

text \<open>The spec's example of a dependency on a path that is no file of the tree.\<close>

definition danglingSrc :: yaml where
  "danglingSrc = YMap [(''a.ts'', yamlFile ''x'' [''src/missing.ts''] ''B'')]"

definition danglingTree :: yaml where
  "danglingTree = YMap [(''src'', danglingSrc)]"

text \<open>The node \<open>processDirectory\<close> builds for the file of that tree.\<close>

definition danglingNode :: "(nat \<Rightarrow> real) \<Rightarrow> fileNode" where
  "danglingNode rnd =
     \<lparr>node_id = ''src/a.ts'', node_type = ''default'',
      node_data = \<lparr>data_label = ''a.ts'', data_content = Some (YStr ''x''),
                   data_agent = Some (YStr ''B''), data_extension = ''ts''\<rparr>,
      node_position = \<lparr>pos_x = rnd 0 * 500, pos_y = rnd 1 * 500\<rparr>,
      node_style = \<lparr>style_border = ''1px solid #ddd'', style_width = defaultNodeWidth\<rparr>\<rparr>"

text \<open>Two files that depend on each other.\<close>

definition mutualTree :: yaml where
  "mutualTree =
     YMap [(''src'', YMap [(''a.ts'', yamlFile ''x'' [''src/b.ts''] ''A''),
                           (''b.ts'', yamlFile ''y'' [''src/a.ts''] ''B'')])]"

text \<open>A plain string in the place of a file record.\<close>

definition stringTree :: yaml where
  "stringTree = YMap [(''src'', YMap [(''a.ts'', YStr ''x'')])]"

text \<open>The nodes with their positions set to the origin, to compare everything else.\<close>

definition withoutPositions :: "fileNode list \<Rightarrow> fileNode list" where
  "withoutPositions ns = map (\<lambda>node. node\<lparr>node_position := \<lparr>pos_x = 0, pos_y = 0\<rparr>\<rparr>) ns"

text \<open>
  What is left of a state of the flattener, of a graph and of an outcome when the
  positions of the nodes and the count of random values drawn are set aside.
\<close>

definition blankState :: "flattenState \<Rightarrow> flattenState" where
  "blankState st = st\<lparr>fs_nodes := withoutPositions (fs_nodes st), fs_drawn := 0\<rparr>"

definition blankGraph :: "graph \<Rightarrow> graph" where
  "blankGraph g = g\<lparr>g_nodes := withoutPositions (g_nodes g)\<rparr>"

fun map_outcome :: "('a \<Rightarrow> 'b) \<Rightarrow> 'a outcome \<Rightarrow> 'b outcome" where
  "map_outcome f (Done a) = Done (f a)"
| "map_outcome f (Threw e) = Threw e"
| "map_outcome f Unsupported = Unsupported"
lemmas color_defs = jsColor_def tsColor_def jsxColor_def tsxColor_def dartColor_def
  pythonColor_def cssColor_def htmlColor_def yamlColor_def pngColor_def glbColor_def
  mp4Color_def mp3Color_def marpColor_def mmdColor_def mdColor_def defaultColor_def

section \<open>The level computation returns or exhausts the stack\<close>

lemma edgeRel_iff: "(a, b) \<in> edgeRel es \<longleftrightarrow> (\<exists>e \<in> set es. source e = a \<and> target e = b)"
  by (auto simp: edgeRel_def)

lemma finite_edgeRel: "finite (edgeRel es)"
  by (simp add: edgeRel_def)

lemma calc_Suc:
  "calculateLevel d es st n l = Inr st' \<Longrightarrow> calculateLevel (Suc d) es st n l = Inr st'"
  "forEachChild d es st cs l = Inr st' \<Longrightarrow> forEachChild (Suc d) es st cs l = Inr st'"
proof (induction d es st n l and d es st cs l arbitrary: st' and st' rule: calculateLevel_forEachChild.induct)
  case (4 depth edges st edge rest level)
  then show ?case by (auto split: sum.splits)
qed auto

lemma calc_mono:
  "d \<le> d' \<Longrightarrow> calculateLevel d es st n l = Inr st' \<Longrightarrow> calculateLevel d' es st n l = Inr st'"
  by (induction d' rule: dec_induct) (auto intro: calc_Suc simp del: calculateLevel.simps)

lemma calc_error:
  "calculateLevel d es st n l = Inl err \<Longrightarrow> err = RangeError"
  "forEachChild d es st cs l = Inl err \<Longrightarrow> err = RangeError"
proof (induction d es st n l and d es st cs l rule: calculateLevel_forEachChild.induct)
  case (4 depth edges st edge rest level)
  then show ?case by (auto split: sum.splits)
qed auto

lemma returns_mono: "returns d es n \<Longrightarrow> d \<le> d' \<Longrightarrow> returns d' es n"
  unfolding returns_def by (meson calc_mono)

lemma forEachChild_returns:
  "\<forall>e \<in> set cs. returns d es (target e) \<Longrightarrow> \<exists>st'. forEachChild d es st cs l = Inr st'"
proof (induction cs arbitrary: st)
  case Nil
  then show ?case by simp
next
  case (Cons e cs)
  from Cons.prems obtain st1 where "calculateLevel d es st (target e) (l + 1) = Inr st1"
    unfolding returns_def by auto (metis)
  moreover from Cons obtain st2 where "forEachChild d es st1 cs l = Inr st2" by auto
  ultimately show ?case by simp
qed

lemma common_depth:
  "\<forall>e \<in> set cs. \<exists>d. returns d es (target e) \<Longrightarrow> \<exists>d. \<forall>e \<in> set cs. returns d es (target e)"
proof (induction cs)
  case Nil
  then show ?case by simp
next
  case (Cons e cs)
  then obtain d1 d2 where d1: "returns d1 es (target e)"
    and d2: "\<forall>e \<in> set cs. returns d2 es (target e)" by auto
  have "\<forall>e' \<in> set (e # cs). returns (max d1 d2) es (target e')"
    using d1 d2 by (auto intro: returns_mono)
  then show ?case by blast
qed

lemma returns_closed:
  assumes ac: "acyclic {(a, b). (a, b) \<in> edgeRel es \<and> a \<in> S}"
    and closed: "\<And>a b. a \<in> S \<Longrightarrow> (a, b) \<in> edgeRel es \<Longrightarrow> b \<in> S"
    and n: "n \<in> S"
  shows "\<exists>d. returns d es n"
proof -
  let ?R = "{(a, b). (a, b) \<in> edgeRel es \<and> a \<in> S}"
  have "finite ?R" by (rule finite_subset [OF _ finite_edgeRel]) auto
  then have wf: "wf (?R\<inverse>)" using ac by (rule finite_acyclic_wf_converse)
  from wf n show ?thesis
  proof (induction n rule: wf_induct_rule)
    case (less n)
    have "\<forall>e \<in> set (childEdges es n). \<exists>d. returns d es (target e)"
    proof
      fix e assume e: "e \<in> set (childEdges es n)"
      then have "(n, target e) \<in> edgeRel es" by (auto simp: childEdges_def edgeRel_iff)
      with less.prems have "(target e, n) \<in> ?R\<inverse>" and "target e \<in> S"
        using closed by auto
      then show "\<exists>d. returns d es (target e)" by (rule less.IH)
    qed
    then obtain d where d: "\<forall>e \<in> set (childEdges es n). returns d es (target e)"
      using common_depth by blast
    have "returns (Suc d) es n"
      unfolding returns_def using forEachChild_returns [OF d] by simp
    then show ?case ..
  qed
qed

lemma forEachChild_fails:
  "e \<in> set cs \<Longrightarrow> \<forall>st. calculateLevel d es st (target e) (l + 1) = Inl RangeError
    \<Longrightarrow> forEachChild d es st cs l = Inl RangeError"
proof (induction cs arbitrary: st)
  case Nil
  then show ?case by simp
next
  case (Cons c cs)
  show ?case
  proof (cases "calculateLevel d es st (target c) (l + 1)")
    case (Inl err)
    then show ?thesis using calc_error(1) [OF Inl] by simp
  next
    case (Inr st1)
    with Cons show ?thesis by auto
  qed
qed

lemma reachesCycle_step:
  assumes "reachesCycle es n"
  shows "\<exists>e \<in> set es. source e = n \<and> reachesCycle es (target e)"
proof -
  from assms obtain c where nc: "(n, c) \<in> (edgeRel es)\<^sup>*" and cc: "(c, c) \<in> (edgeRel es)\<^sup>+"
    unfolding reachesCycle_def by blast
  have "(n, c) \<in> (edgeRel es)\<^sup>+"
  proof (cases "n = c")
    case True
    with cc show ?thesis by simp
  next
    case False
    with nc show ?thesis by (simp add: rtrancl_eq_or_trancl)
  qed
  then obtain m where nm: "(n, m) \<in> edgeRel es" and mc: "(m, c) \<in> (edgeRel es)\<^sup>*"
    by (meson tranclD)
  from nm obtain e where e: "e \<in> set es" "source e = n" "target e = m"
    by (auto simp: edgeRel_iff)
  from mc cc have "reachesCycle es m" unfolding reachesCycle_def by blast
  with e show ?thesis by blast
qed

lemma reachesCycle_overflow:
  "reachesCycle es n \<Longrightarrow> calculateLevel d es st n l = Inl RangeError"
proof (induction d arbitrary: n st l)
  case 0
  then show ?case by simp
next
  case (Suc d)
  from reachesCycle_step [OF Suc.prems] obtain e
    where e: "e \<in> set es" "source e = n" "reachesCycle es (target e)" by blast
  then have "e \<in> set (childEdges es n)" by (simp add: childEdges_def)
  moreover have "\<forall>st. calculateLevel d es st (target e) (l + 1) = Inl RangeError"
    using Suc.IH [OF e(3)] by simp
  ultimately show ?case by (simp add: forEachChild_fails)
qed

lemma forEachStart_fails:
  "r \<in> set rs \<Longrightarrow> \<forall>st. calculateLevel d es st r 0 = Inl RangeError
    \<Longrightarrow> forEachStart d es st rs = Inl RangeError"
proof (induction rs arbitrary: st)
  case Nil
  then show ?case by simp
next
  case (Cons c cs)
  show ?case
  proof (cases "calculateLevel d es st c 0")
    case (Inl err)
    then show ?thesis using calc_error(1) [OF Inl] by simp
  next
    case (Inr st1)
    with Cons show ?thesis by auto
  qed
qed

lemma forEachStart_returns:
  "\<forall>r \<in> set rs. returns d es r \<Longrightarrow> \<exists>st'. forEachStart d es st rs = Inr st'"
proof (induction rs arbitrary: st)
  case Nil
  then show ?case by simp
next
  case (Cons r rs)
  from Cons.prems obtain st1 where "calculateLevel d es st r 0 = Inr st1"
    unfolding returns_def by auto (metis)
  moreover from Cons obtain st2 where "forEachStart d es st1 rs = Inr st2" by auto
  ultimately show ?case by simp
qed

lemma common_depth_roots:
  "\<forall>r \<in> set rs. \<exists>d. returns d es r \<Longrightarrow> \<exists>d. \<forall>r \<in> set rs. returns d es r"
proof (induction rs)
  case Nil
  then show ?case by simp
next
  case (Cons r rs)
  then obtain d1 d2 where d1: "returns d1 es r"
    and d2: "\<forall>r \<in> set rs. returns d2 es r" by auto
  have "\<forall>r' \<in> set (r # rs). returns (max d1 d2) es r'"
    using d1 d2 by (auto intro: returns_mono)
  then show ?case by blast
qed

lemma no_cycle_returns:
  assumes "\<forall>r \<in> set rs. \<not> reachesCycle es r"
  shows "\<exists>d. \<forall>r \<in> set rs. returns d es r"
proof -
  let ?S = "{n. \<exists>r \<in> set rs. (r, n) \<in> (edgeRel es)\<^sup>*}"
  let ?R = "{(a, b). (a, b) \<in> edgeRel es \<and> a \<in> ?S}"
  have sub: "?R \<subseteq> edgeRel es" by auto
  have "acyclic ?R"
  proof (rule acyclicI, rule allI, rule notI)
    fix c assume c: "(c, c) \<in> ?R\<^sup>+"
    then have "(c, c) \<in> (edgeRel es)\<^sup>+" using trancl_mono [OF _ sub] by blast
    moreover from c obtain m where "(c, m) \<in> ?R" by (meson tranclD)
    then obtain r where "r \<in> set rs" "(r, c) \<in> (edgeRel es)\<^sup>*" by auto
    ultimately have "reachesCycle es r" unfolding reachesCycle_def by blast
    with \<open>r \<in> set rs\<close> assms show False by blast
  qed
  moreover have "\<And>a b. a \<in> ?S \<Longrightarrow> (a, b) \<in> edgeRel es \<Longrightarrow> b \<in> ?S"
    by (auto intro: rtrancl_into_rtrancl)
  ultimately have "\<forall>r \<in> set rs. \<exists>d. returns d es r"
    using returns_closed [of es ?S] by blast
  then show ?thesis by (rule common_depth_roots)
qed

section \<open>File extensions and colours\<close>

lemma str_split_not_Nil: "str_split c s \<noteq> []"
  by (induction s) (auto split: list.splits)

lemma str_split_no_sep: "c \<notin> set s \<Longrightarrow> str_split c s = [s]"
  by (induction s) auto

lemma str_split_single: "str_split c s = [t] \<Longrightarrow> t = s"
proof (induction s arbitrary: t)
  case Nil
  then show ?case by simp
next
  case (Cons x xs)
  then show ?case
    using str_split_not_Nil [of c xs] by (auto split: if_splits list.splits)
qed

lemma last_str_split_empty: "last (str_split c s) = [] \<longleftrightarrow> s = [] \<or> last s = c"
proof (induction s)
  case Nil
  then show ?case by simp
next
  case (Cons x xs)
  obtain t ts where split: "str_split c xs = t # ts"
    using str_split_not_Nil [of c xs] by (cases "str_split c xs") auto
  show ?case
  proof (cases "xs = []")
    case True
    then show ?thesis by simp
  next
    case False
    have "ts \<noteq> []" if "t = []"
      using that split str_split_single [of c xs t] False by auto
    with Cons split False show ?thesis by (auto split: if_splits)
  qed
qed

text \<open>
  The extension is empty exactly for the empty path and for a path that ends in a dot.
\<close>

lemma getFileExtension_empty_iff:
  "getFileExtension path = [] \<longleftrightarrow> path = [] \<or> last path = CHR ''.''"
  using last_str_split_empty [of "CHR ''.''" path]
  by (simp add: getFileExtension_def pop_def or_empty_def str_split_not_Nil)

text \<open>
  C10, as the code has it. For a file name without a dot,
  \<^verbatim>\<open>path.split(".").pop() || ""\<close> is the whole file name, not the empty string. The
  extension is the empty string for the empty path and for every path that ends in a
  dot, and for no other.
\<close>

theorem getFileExtension_without_dot:
  "(CHR ''.'' \<notin> set name \<longrightarrow> getFileExtension name = name)
   \<and> (getFileExtension path = [] \<longleftrightarrow> path = [] \<or> last path = CHR ''.'')"
  using getFileExtension_empty_iff [of path]
  by (simp add: str_split_no_sep getFileExtension_def pop_def or_empty_def)

theorem getFileExtension_without_dot_witness:
  "CHR ''.'' \<notin> set ''Makefile'' \<and> getFileExtension ''Makefile'' = ''Makefile''
     \<and> getFileExtension ''Makefile'' \<noteq> []"
  using getFileExtension_without_dot [of "''Makefile''"] by simp

theorem getFileExtension_trailing_dot_counterexample:
  "getFileExtension ''a.'' = [] \<and> ''a.'' \<noteq> []"
  by (simp add: getFileExtension_def pop_def or_empty_def)

lemma lower_char_not_upper: "lower_char c \<notin> set ''ABCDEFGHIJKLMNOPQRSTUVWXYZ''"
  by (simp add: lower_char_def split: option.splits if_splits)

lemma toLowerCase_no_upper: "set (toLowerCase s) \<inter> set ''ABCDEFGHIJKLMNOPQRSTUVWXYZ'' = {}"
proof -
  have "x \<notin> set ''ABCDEFGHIJKLMNOPQRSTUVWXYZ''" if "x \<in> set (toLowerCase s)" for x
  proof -
    from that obtain c where x: "x = lower_char c" unfolding toLowerCase_def by auto
    show ?thesis unfolding x by (rule lower_char_not_upper)
  qed
  then show ?thesis by blast
qed

lemma toLowerCase_prototype:
  "toLowerCase s \<in> set objectPrototypeKeys
     \<longleftrightarrow> toLowerCase s = ''constructor'' \<or> toLowerCase s = ''__proto__''"
proof -
  have "toLowerCase s \<noteq> t" if "set t \<inter> set ''ABCDEFGHIJKLMNOPQRSTUVWXYZ'' \<noteq> {}" for t
    using that toLowerCase_no_upper [of s] by auto
  then have "toLowerCase s \<noteq> ''hasOwnProperty''" "toLowerCase s \<noteq> ''isPrototypeOf''"
    "toLowerCase s \<noteq> ''propertyIsEnumerable''" "toLowerCase s \<noteq> ''toLocaleString''"
    "toLowerCase s \<noteq> ''toString''" "toLowerCase s \<noteq> ''valueOf''"
    "toLowerCase s \<noteq> ''__defineGetter__''" "toLowerCase s \<noteq> ''__defineSetter__''"
    "toLowerCase s \<noteq> ''__lookupGetter__''" "toLowerCase s \<noteq> ''__lookupSetter__''"
    by simp_all
  then show ?thesis by (auto simp: objectPrototypeKeys_def)
qed

lemma lower_char_idem: "lower_char (lower_char c) = lower_char c"
  by (simp add: lower_char_def split: option.splits if_splits)

lemma toLowerCase_idem: "toLowerCase (toLowerCase s) = toLowerCase s"
  by (simp add: toLowerCase_def lower_char_idem)

lemma map_of_colorMap_None:
  "k \<notin> set knownExtensions \<Longrightarrow> map_of colorMap k = None"
  by (simp add: colorMap_def knownExtensions_def)

text \<open>
  C9, as the code has it. The sixteen extensions get the colours of the table. The key
  is the extension in lower case, so an extension in another case gets the colour of its
  lower-case form; an extension whose lower-case form is none of the sixteen gets the
  default colour, unless that form is \<^verbatim>\<open>constructor\<close> or \<^verbatim>\<open>__proto__\<close>, which every object
  inherits. The second copy of the function has no entry for seven of the sixteen.
\<close>

theorem getExtensionColor_lower_case:
  "map getExtensionColor knownExtensions =
     map Color [jsColor, tsColor, jsxColor, tsxColor, cssColor, htmlColor, yamlColor,
       dartColor, pythonColor, pngColor, glbColor, mp4Color, mp3Color, marpColor,
       mmdColor, mdColor]
   \<and> (\<forall>ext. getExtensionColor ext = getExtensionColor (toLowerCase ext))
   \<and> (\<forall>ext. toLowerCase ext \<notin> set knownExtensions \<and> toLowerCase ext \<noteq> ''constructor''
          \<and> toLowerCase ext \<noteq> ''__proto__''
        \<longrightarrow> getExtensionColor ext = Color defaultColor)
   \<and> map getExtensionColor2 [''js'', ''ts'', ''jsx'', ''tsx'', ''html'', ''dart'', ''python'']
       = replicate 7 (Color ''#9E9E9E'')"
proof (intro conjI allI impI)
  show "map getExtensionColor knownExtensions =
     map Color [jsColor, tsColor, jsxColor, tsxColor, cssColor, htmlColor, yamlColor,
       dartColor, pythonColor, pngColor, glbColor, mp4Color, mp3Color, marpColor,
       mmdColor, mdColor]"
    by (simp add: knownExtensions_def getExtensionColor_def lookupProp_def colorMap_def
        toLowerCase_def lower_char_def color_defs)
next
  fix ext
  show "getExtensionColor ext = getExtensionColor (toLowerCase ext)"
    by (simp add: getExtensionColor_def toLowerCase_idem)
next
  fix ext
  assume a: "toLowerCase ext \<notin> set knownExtensions \<and> toLowerCase ext \<noteq> ''constructor''
    \<and> toLowerCase ext \<noteq> ''__proto__''"
  then have "toLowerCase ext \<notin> set objectPrototypeKeys"
    using toLowerCase_prototype [of ext] by simp
  with a show "getExtensionColor ext = Color defaultColor"
    by (simp add: getExtensionColor_def lookupProp_def map_of_colorMap_None)
next
  show "map getExtensionColor2 [''js'', ''ts'', ''jsx'', ''tsx'', ''html'', ''dart'', ''python'']
       = replicate 7 (Color ''#9E9E9E'')"
    by (simp add: getExtensionColor2_def lookupProp_def colors2_def objectPrototypeKeys_def
        numeral_eq_Suc)
qed

theorem getExtensionColor_lower_case_witness:
  "toLowerCase ''txt'' \<notin> set knownExtensions \<and> getExtensionColor ''txt'' = Color defaultColor"
proof -
  have a: "toLowerCase ''txt'' \<notin> set knownExtensions \<and> toLowerCase ''txt'' \<noteq> ''constructor''
     \<and> toLowerCase ''txt'' \<noteq> ''__proto__''"
    by (simp add: toLowerCase_def lower_char_def knownExtensions_def)
  with getExtensionColor_lower_case show ?thesis by blast
qed

theorem getExtensionColor_upper_case_counterexample:
  "''JS'' \<notin> set knownExtensions \<and> getExtensionColor ''JS'' = Color jsColor
     \<and> Color jsColor \<noteq> Color defaultColor"
  by (simp add: knownExtensions_def getExtensionColor_def lookupProp_def colorMap_def
      toLowerCase_def lower_char_def color_defs)

section \<open>Cycles\<close>

lemma acyclic_no_reachesCycle: "acyclic (edgeRel es) \<Longrightarrow> \<not> reachesCycle es n"
  by (auto simp: reachesCycle_def acyclic_def)

lemma computeLevels_returns:
  "\<forall>r \<in> set (startNodes ns es). \<not> reachesCycle es r \<Longrightarrow> \<exists>d st. computeLevels d ns es = Inr st"
proof -
  assume "\<forall>r \<in> set (startNodes ns es). \<not> reachesCycle es r"
  then obtain d where "\<forall>r \<in> set (startNodes ns es). returns d es r"
    using no_cycle_returns by blast
  then show "\<exists>d st. computeLevels d ns es = Inr st"
    unfolding computeLevels_def using forEachStart_returns by blast
qed

lemma computeLevels_overflow:
  assumes r: "r \<in> set (startNodes ns es)" and cyc: "reachesCycle es r"
  shows "computeLevels d ns es = Inl RangeError"
  unfolding computeLevels_def
  using r reachesCycle_overflow [OF cyc] by (intro forEachStart_fails) auto

lemma acyclic_empty_rel: "acyclic {}"
  by (simp add: acyclic_def)

lemma diamond_acyclic: "acyclic (edgeRel diamondEdges)"
  by (simp add: diamondEdges_def edgeFromTo_def edgeRel_def acyclic_empty_rel
      rtrancl_insert)

lemma cyclic_start: "startNodes cyclicNodes cyclicEdges = [''src/a.ts'']"
  by (simp add: startNodes_def cyclicNodes_def cyclicEdges_def nodeWithId_def mkNode2_def
      edgeFromTo_def)

lemma cyclic_reachesCycle: "reachesCycle cyclicEdges ''src/a.ts''"
proof -
  let ?R = "edgeRel cyclicEdges"
  have ab: "(''src/a.ts'', ''src/b.ts'') \<in> ?R" and bc: "(''src/b.ts'', ''src/c.ts'') \<in> ?R"
    and cb: "(''src/c.ts'', ''src/b.ts'') \<in> ?R"
    by (simp_all add: cyclicEdges_def edgeFromTo_def edgeRel_def)
  from bc cb have "(''src/b.ts'', ''src/b.ts'') \<in> ?R\<^sup>+" by (rule trancl_into_trancl2 [OF _ r_into_trancl])
  moreover from ab have "(''src/a.ts'', ''src/b.ts'') \<in> ?R\<^sup>*" by (rule r_into_rtrancl)
  ultimately show ?thesis unfolding reachesCycle_def by blast
qed

text \<open>
  C1, as the code has it. \<open>calculateLevel\<close> has no guard against a cycle. When no cycle
  of edges can be reached from a start node, the level computation and
  \<open>calculateNodePositions\<close> return once the call stack is deep enough; when a cycle can
  be reached from a start node, they exhaust every call stack.
\<close>

theorem calculateNodePositions_returns_without_cycle:
  "((\<forall>r \<in> set (startNodes ns es). \<not> reachesCycle es r)
      \<longrightarrow> (\<exists>d pos. calculateNodePositions d hs vs ns es = Inr pos))
   \<and> ((\<exists>r \<in> set (startNodes ns es). reachesCycle es r)
      \<longrightarrow> (\<forall>d. calculateNodePositions d hs vs ns es = Inl RangeError))"
proof (intro conjI impI)
  assume "\<forall>r \<in> set (startNodes ns es). \<not> reachesCycle es r"
  then obtain d st where "computeLevels d ns es = Inr st"
    using computeLevels_returns by blast
  then have "calculateNodePositions d hs vs ns es = Inr (placeLevels hs vs (nodesPerLevel st) Map.empty)"
    by (simp add: calculateNodePositions_def)
  then show "\<exists>d pos. calculateNodePositions d hs vs ns es = Inr pos" by blast
next
  assume "\<exists>r \<in> set (startNodes ns es). reachesCycle es r"
  then show "\<forall>d. calculateNodePositions d hs vs ns es = Inl RangeError"
    using computeLevels_overflow by (auto simp: calculateNodePositions_def)
qed

theorem calculateNodePositions_returns_without_cycle_witness:
  "\<exists>d pos. calculateNodePositions d defaultHorizontalSpacing defaultVerticalSpacing
      diamondNodes diamondEdges = Inr pos"
proof -
  have "\<forall>r \<in> set (startNodes diamondNodes diamondEdges). \<not> reachesCycle diamondEdges r"
    using acyclic_no_reachesCycle [OF diamond_acyclic] by blast
  then show ?thesis
    using calculateNodePositions_returns_without_cycle
      [of diamondNodes diamondEdges defaultHorizontalSpacing defaultVerticalSpacing]
    by blast
qed

theorem calculateNodePositions_cycle_counterexample:
  "''src/a.ts'' \<in> set (startNodes cyclicNodes cyclicEdges)
   \<and> reachesCycle cyclicEdges ''src/a.ts''
   \<and> (\<forall>d. calculateNodePositions d defaultHorizontalSpacing defaultVerticalSpacing
          cyclicNodes cyclicEdges = Inl RangeError)"
proof (intro conjI allI)
  show "''src/a.ts'' \<in> set (startNodes cyclicNodes cyclicEdges)"
    by (simp add: cyclic_start)
  show "reachesCycle cyclicEdges ''src/a.ts''" by (rule cyclic_reachesCycle)
  fix d
  have "computeLevels d cyclicNodes cyclicEdges = Inl RangeError"
    by (rule computeLevels_overflow [OF _ cyclic_reachesCycle]) (simp add: cyclic_start)
  then show "calculateNodePositions d defaultHorizontalSpacing defaultVerticalSpacing
          cyclicNodes cyclicEdges = Inl RangeError"
    by (simp add: calculateNodePositions_def)
qed

section \<open>Levels and the depths at which a node is reached\<close>

lemma visits_Nil: "visits [] = {}"
  by (simp add: visits_def)

lemma visits_Cons: "visits ((k, ids) # rest) = {(k, n) | n. n \<in> set ids} \<union> visits rest"
  by (auto simp: visits_def)

lemma visits_pushLevel: "visits (pushLevel l n npl) = insert (l, n) (visits npl)"
  by (induction l n npl rule: pushLevel.induct) (auto simp: visits_Cons visits_Nil)

lemma keys_pushLevel: "fst ` set (pushLevel l n npl) = insert l (fst ` set npl)"
  by (induction l n npl rule: pushLevel.induct) auto

lemma sorted_pushLevel:
  "sorted_wrt (<) (map fst npl) \<Longrightarrow> sorted_wrt (<) (map fst (pushLevel l n npl))"
proof (induction l n npl rule: pushLevel.induct)
  case (1 level nodeId)
  then show ?case by simp
next
  case (2 level nodeId k ids rest)
  have "set (map fst (pushLevel level nodeId rest)) = insert level (set (map fst rest))"
    using keys_pushLevel [of level nodeId rest] by simp
  with 2 show ?case by auto
qed

lemma finite_visit_levels: "finite {k. (k, n) \<in> visits npl}"
proof (rule finite_subset)
  show "{k. (k, n) \<in> visits npl} \<subseteq> fst ` set npl" by (force simp: visits_def)
qed simp

lemma proto_is_prototype_key: "''__proto__'' \<in> set objectPrototypeKeys"
  by (simp add: objectPrototypeKeys_def)

lemma levelsInv_empty: "levelsInv emptyLayout"
  by (simp add: levelsInv_def emptyLayout_def visits_Nil)

lemma levelsInv_recordVisit:
  assumes "levelsInv st"
  shows "levelsInv (recordVisit st n l)"
  unfolding levelsInv_def
proof
  fix m
  let ?V = "\<lambda>m. {k. (k, m) \<in> visits (nodesPerLevel st)}"
  let ?V' = "\<lambda>m. {k. (k, m) \<in> visits (nodesPerLevel (recordVisit st n l))}"
  let ?goal = "levels (recordVisit st n l) m =
      (if ?V' m = {} \<or> m = ''__proto__'' then None
       else if m \<in> set objectPrototypeKeys then Some NaN
       else Some (Level (Max (?V' m))))"
  have V': "?V' m = (if m = n then insert l (?V m) else ?V m)"
    by (auto simp: recordVisit_def visits_pushLevel)
  have old: "levels st m =
      (if ?V m = {} \<or> m = ''__proto__'' then None
       else if m \<in> set objectPrototypeKeys then Some NaN
       else Some (Level (Max (?V m))))"
    using assms unfolding levelsInv_def by blast
  show ?goal
  proof (cases "m = n")
    case False
    then have "levels (recordVisit st n l) m = levels st m"
      by (cases "levels st n")
        (auto simp: recordVisit_def split: levelValue.splits)
    with False V' old show ?thesis by simp
  next
    case True
    have new: "?V' n = insert l (?V n)" using V' True by simp
    have ne: "?V' n \<noteq> {}" unfolding new by simp
    have oldn: "levels st n =
      (if ?V n = {} \<or> n = ''__proto__'' then None
       else if n \<in> set objectPrototypeKeys then Some NaN
       else Some (Level (Max (?V n))))"
      using old True by simp
    show ?thesis
    proof (cases "n \<in> set objectPrototypeKeys")
      case True
      show ?thesis
      proof (cases "n = ''__proto__''")
        case True
        then have "levels st n = None" using oldn by simp
        then have "levels (recordVisit st n l) n = None"
          using True proto_is_prototype_key by (simp add: recordVisit_def)
        with True \<open>m = n\<close> show ?thesis by simp
      next
        case False
        have "levels (recordVisit st n l) n = Some NaN"
        proof (cases "?V n = {}")
          case True
          then have "levels st n = None" using oldn by simp
          with False \<open>n \<in> set objectPrototypeKeys\<close> show ?thesis
            by (simp add: recordVisit_def)
        next
          case nonempty: False
          then have "levels st n = Some NaN"
            using oldn False \<open>n \<in> set objectPrototypeKeys\<close> by simp
          then show ?thesis by (simp add: recordVisit_def)
        qed
        with False \<open>n \<in> set objectPrototypeKeys\<close> \<open>m = n\<close> ne show ?thesis by simp
      qed
    next
      case False
      then have np: "n \<noteq> ''__proto__''" using proto_is_prototype_key by auto
      have "levels (recordVisit st n l) n = Some (Level (Max (?V' n)))"
      proof (cases "?V n = {}")
        case True
        then have "levels st n = None" using oldn by simp
        moreover have "Max (?V' n) = l" unfolding new using True by simp
        ultimately show ?thesis using False by (simp add: recordVisit_def)
      next
        case nonempty: False
        then have "levels st n = Some (Level (Max (?V n)))"
          using oldn False np by simp
        moreover have "Max (?V' n) = max (Max (?V n)) l"
          unfolding new using nonempty finite_visit_levels [of n "nodesPerLevel st"]
          by (simp add: max.commute)
        ultimately show ?thesis by (simp add: recordVisit_def)
      qed
      with False np \<open>m = n\<close> ne show ?thesis by simp
    qed
  qed
qed

text \<open>Whatever every recorded visit preserves holds when the computation returns.\<close>

lemma calc_preserves:
  assumes step: "\<And>st n l. P st \<Longrightarrow> P (recordVisit st n l)"
  shows "calculateLevel d es st n l = Inr st' \<Longrightarrow> P st \<Longrightarrow> P st'"
    and "forEachChild d es st cs l = Inr st' \<Longrightarrow> P st \<Longrightarrow> P st'"
proof (induction d es st n l and d es st cs l arbitrary: st' and st'
    rule: calculateLevel_forEachChild.induct)
  case (2 depth edges st nodeId level)
  then show ?case using step by simp
next
  case (4 depth edges st edge rest level)
  then show ?case by (auto split: sum.splits)
qed auto

lemma forEachStart_preserves:
  assumes step: "\<And>st n l. P st \<Longrightarrow> P (recordVisit st n l)"
  shows "forEachStart d es st rs = Inr st' \<Longrightarrow> P st \<Longrightarrow> P st'"
proof (induction rs arbitrary: st)
  case Nil
  then show ?case by simp
next
  case (Cons r rs)
  then show ?case using calc_preserves(1) [of P, OF step] by (auto split: sum.splits)
qed

lemma computeLevels_levelsInv: "computeLevels d ns es = Inr st \<Longrightarrow> levelsInv st"
  unfolding computeLevels_def
  using forEachStart_preserves [of levelsInv, OF levelsInv_recordVisit] levelsInv_empty by blast

lemma computeLevels_sorted:
  assumes "computeLevels d ns es = Inr st"
  shows "sorted_wrt (<) (map fst (nodesPerLevel st))"
proof -
  let ?Q = "\<lambda>st. sorted_wrt (<) (map fst (nodesPerLevel st))"
  have step: "\<And>st n l. ?Q st \<Longrightarrow> ?Q (recordVisit st n l)"
    by (simp add: recordVisit_def sorted_pushLevel)
  from assms have run: "forEachStart d es emptyLayout (startNodes ns es) = Inr st"
    by (simp add: computeLevels_def)
  have "?Q emptyLayout" by (simp add: emptyLayout_def)
  with forEachStart_preserves [where P = ?Q, OF step run] show ?thesis by simp
qed

text \<open>Soundness: every logged visit is a depth at which the node is reached.\<close>

lemma calc_sound:
  "calculateLevel d es st n l = Inr st' \<Longrightarrow> (l, n) \<in> reachedAt es rs
     \<Longrightarrow> visits (nodesPerLevel st) \<subseteq> reachedAt es rs
     \<Longrightarrow> visits (nodesPerLevel st') \<subseteq> reachedAt es rs"
  "forEachChild d es st cs l = Inr st' \<Longrightarrow> \<forall>e \<in> set cs. (Suc l, target e) \<in> reachedAt es rs
     \<Longrightarrow> visits (nodesPerLevel st) \<subseteq> reachedAt es rs
     \<Longrightarrow> visits (nodesPerLevel st') \<subseteq> reachedAt es rs"
proof (induction d es st n l and d es st cs l arbitrary: st' and st'
    rule: calculateLevel_forEachChild.induct)
  case (2 depth edges st nodeId level)
  have "\<forall>e \<in> set (childEdges edges nodeId). (Suc level, target e) \<in> reachedAt edges rs"
    using 2(3) by (auto simp: childEdges_def intro: reachedAt.step)
  moreover have "visits (nodesPerLevel (recordVisit st nodeId level)) \<subseteq> reachedAt edges rs"
    using 2(3,4) by (simp add: recordVisit_def visits_pushLevel)
  ultimately show ?case using 2(1) [of st'] 2(2) by simp
next
  case (4 depth edges st edge rest level)
  then show ?case by (auto split: sum.splits)
qed auto

text \<open>Completeness: the visits added by a call are closed under the edges.\<close>

lemma closedAt_mono: "closedAt es V p \<Longrightarrow> V \<subseteq> V' \<Longrightarrow> closedAt es V' p"
  unfolding closedAt_def by blast

lemma calc_complete:
  "calculateLevel d es st n l = Inr st' \<Longrightarrow>
     visits (nodesPerLevel st) \<subseteq> visits (nodesPerLevel st')
     \<and> (l, n) \<in> visits (nodesPerLevel st')
     \<and> (\<forall>p \<in> visits (nodesPerLevel st') - visits (nodesPerLevel st).
          closedAt es (visits (nodesPerLevel st')) p)"
  "forEachChild d es st cs l = Inr st' \<Longrightarrow>
     visits (nodesPerLevel st) \<subseteq> visits (nodesPerLevel st')
     \<and> (\<forall>e \<in> set cs. (Suc l, target e) \<in> visits (nodesPerLevel st'))
     \<and> (\<forall>p \<in> visits (nodesPerLevel st') - visits (nodesPerLevel st).
          closedAt es (visits (nodesPerLevel st')) p)"
proof (induction d es st n l and d es st cs l arbitrary: st' and st'
    rule: calculateLevel_forEachChild.induct)
  case (1 edges st nodeId level)
  then show ?case by simp
next
  case (2 depth edges st nodeId level)
  let ?st1 = "recordVisit st nodeId level"
  let ?V = "visits (nodesPerLevel st)" and ?V1 = "visits (nodesPerLevel ?st1)"
    and ?V' = "visits (nodesPerLevel st')"
  have V1: "?V1 = insert (level, nodeId) ?V" by (simp add: recordVisit_def visits_pushLevel)
  from 2 have run: "forEachChild depth edges ?st1 (childEdges edges nodeId) level = Inr st'"
    by simp
  note ih = 2(1) [OF run]
  from ih have sub: "?V1 \<subseteq> ?V'" by blast
  have here: "closedAt edges ?V' (level, nodeId)"
    using ih by (auto simp: closedAt_def childEdges_def)
  have "closedAt edges ?V' p" if "p \<in> ?V' - ?V" for p
  proof (cases "p = (level, nodeId)")
    case True
    with here show ?thesis by simp
  next
    case False
    with that V1 have "p \<in> ?V' - ?V1" by auto
    with ih show ?thesis by blast
  qed
  with sub V1 show ?case by auto
next
  case (3 depth edges st level)
  then show ?case by simp
next
  case (4 depth edges st edge rest level)
  from 4(3) obtain st1 where c1: "calculateLevel depth edges st (target edge) (level + 1) = Inr st1"
    and c2: "forEachChild depth edges st1 rest level = Inr st'"
    by (auto split: sum.splits)
  let ?V = "visits (nodesPerLevel st)" and ?V1 = "visits (nodesPerLevel st1)"
    and ?V' = "visits (nodesPerLevel st')"
  note ih1 = 4(1) [OF c1] and ih2 = 4(2) [OF c1 c2]
  have "closedAt edges ?V' p" if "p \<in> ?V' - ?V" for p
  proof (cases "p \<in> ?V1")
    case True
    with that ih1 have "closedAt edges ?V1 p" by blast
    then show ?thesis using ih2 closedAt_mono by blast
  next
    case False
    with that ih2 show ?thesis by blast
  qed
  moreover have "(Suc level, target edge) \<in> ?V'" using ih1 ih2 by auto
  ultimately show ?case using ih1 ih2 by auto
qed

lemma forEachStart_sound:
  "forEachStart d es st rs' = Inr st' \<Longrightarrow> set rs' \<subseteq> set rs
     \<Longrightarrow> visits (nodesPerLevel st) \<subseteq> reachedAt es rs
     \<Longrightarrow> visits (nodesPerLevel st') \<subseteq> reachedAt es rs"
proof (induction rs' arbitrary: st)
  case Nil
  then show ?case by simp
next
  case (Cons r rs')
  from Cons.prems(1) obtain st1 where c1: "calculateLevel d es st r 0 = Inr st1"
    and c2: "forEachStart d es st1 rs' = Inr st'"
    by (auto split: sum.splits)
  have "(0, r) \<in> reachedAt es rs" using Cons.prems(2) by (auto intro: reachedAt.root)
  then have "visits (nodesPerLevel st1) \<subseteq> reachedAt es rs"
    using calc_sound(1) [OF c1] Cons.prems(3) by blast
  then show ?case using Cons.IH [OF c2] Cons.prems(2) by simp
qed

lemma forEachStart_complete:
  "forEachStart d es st rs = Inr st' \<Longrightarrow>
     visits (nodesPerLevel st) \<subseteq> visits (nodesPerLevel st')
     \<and> (\<forall>r \<in> set rs. (0, r) \<in> visits (nodesPerLevel st'))
     \<and> (\<forall>p \<in> visits (nodesPerLevel st') - visits (nodesPerLevel st).
          closedAt es (visits (nodesPerLevel st')) p)"
proof (induction rs arbitrary: st)
  case Nil
  then show ?case by simp
next
  case (Cons r rs)
  from Cons.prems(1) obtain st1 where c1: "calculateLevel d es st r 0 = Inr st1"
    and c2: "forEachStart d es st1 rs = Inr st'"
    by (auto split: sum.splits)
  let ?V = "visits (nodesPerLevel st)" and ?V1 = "visits (nodesPerLevel st1)"
    and ?V' = "visits (nodesPerLevel st')"
  note ih1 = calc_complete(1) [OF c1] and ih2 = Cons.IH [OF c2]
  have "closedAt es ?V' p" if "p \<in> ?V' - ?V" for p
  proof (cases "p \<in> ?V1")
    case True
    with that ih1 have "closedAt es ?V1 p" by blast
    then show ?thesis using ih2 closedAt_mono by blast
  next
    case False
    with that ih2 show ?thesis by blast
  qed
  moreover have "(0, r) \<in> ?V'" using ih1 ih2 by auto
  ultimately show ?case using ih1 ih2 by auto
qed

lemma computeLevels_visits:
  assumes "computeLevels d ns es = Inr st"
  shows "visits (nodesPerLevel st) = reachedAt es (startNodes ns es)"
proof
  let ?rs = "startNodes ns es"
  from assms have run: "forEachStart d es emptyLayout ?rs = Inr st"
    by (simp add: computeLevels_def)
  have empty: "visits (nodesPerLevel emptyLayout) = {}"
    by (simp add: emptyLayout_def visits_Nil)
  show "visits (nodesPerLevel st) \<subseteq> reachedAt es ?rs"
    using forEachStart_sound [OF run] empty by simp
  note c = forEachStart_complete [OF run]
  show "reachedAt es ?rs \<subseteq> visits (nodesPerLevel st)"
  proof (rule subrelI)
    fix k n assume "(k, n) \<in> reachedAt es ?rs"
    then show "(k, n) \<in> visits (nodesPerLevel st)"
    proof (induction rule: reachedAt.induct)
      case (root r)
      with c show ?case by blast
    next
      case (step k a e)
      with c empty have "closedAt es (visits (nodesPerLevel st)) (k, a)" by auto
      with step show ?case by (auto simp: closedAt_def)
    qed
  qed
qed

lemma computeLevels_levels:
  assumes "computeLevels d ns es = Inr st" and "n \<notin> set objectPrototypeKeys"
  shows "levels st n =
     (if depthsOf es (startNodes ns es) n = {} then None
      else Some (Level (Max (depthsOf es (startNodes ns es) n))))"
proof -
  from assms(2) have "n \<noteq> ''__proto__''" using proto_is_prototype_key by auto
  with assms(2) show ?thesis
    using computeLevels_levelsInv [OF assms(1)] computeLevels_visits [OF assms(1)]
    by (simp add: levelsInv_def depthsOf_def)
qed

section \<open>Placement\<close>




lemma placeNodes_apply:
  "placeNodes hs vs k sx i ids pos n =
     (if n \<in> set ids
      then Some \<lparr>pos_x = sx + real (i + lastIndex ids n) * hs
                    + (if k mod 2 = 0 then 0 else STAGGER_OFFSET),
                 pos_y = real k * vs\<rparr>
      else pos n)"
  by (induction ids arbitrary: i pos) (auto simp: Let_def)

lemma placeLevel_apply:
  "placeLevel hs vs (k, ids) pos n =
     (if n \<in> set ids then Some (slot hs vs k (length ids) (lastIndex ids n)) else pos n)"
  by (simp add: placeLevel_def placeNodes_apply slot_def)

lemma placeLevels_apply:
  "placeLevels hs vs npl pos n =
     (case finalEntry npl n of
        None \<Rightarrow> pos n
      | Some (k, ids) \<Rightarrow> Some (slot hs vs k (length ids) (lastIndex ids n)))"
proof (induction npl arbitrary: pos)
  case Nil
  then show ?case by simp
next
  case (Cons entry rest)
  obtain k ids where entry: "entry = (k, ids)" by (cases entry)
  show ?case
    by (simp add: Cons.IH entry placeLevel_apply split: option.splits)
qed

lemma finalEntry_None: "finalEntry npl n = None \<longleftrightarrow> (\<forall>k. (k, n) \<notin> visits npl)"
proof (induction npl)
  case Nil
  then show ?case by (simp add: visits_Nil)
next
  case (Cons entry rest)
  obtain k ids where entry: "entry = (k, ids)" by (cases entry)
  show ?case using Cons by (auto simp: entry visits_Cons split: option.splits)
qed

lemma finalEntry_Some:
  "finalEntry npl n = Some (k, ids) \<Longrightarrow> (k, ids) \<in> set npl \<and> n \<in> set ids"
  by (induction npl) (auto split: option.splits if_splits)

lemma visits_key: "(k, n) \<in> visits npl \<Longrightarrow> k \<in> fst ` set npl"
  by (force simp: visits_def)

lemma finalEntry_greatest:
  "sorted_wrt (<) (map fst npl) \<Longrightarrow> finalEntry npl n = Some (k, ids)
     \<Longrightarrow> (k', n) \<in> visits npl \<Longrightarrow> k' \<le> k"
proof (induction npl)
  case Nil
  then show ?case by simp
next
  case (Cons entry rest)
  obtain j js where entry: "entry = (j, js)" by (cases entry)
  show ?case
  proof (cases "finalEntry rest n")
    case None
    with Cons.prems entry have "k = j" "(k', n) \<notin> visits rest"
      by (auto simp: finalEntry_None split: if_splits)
    with Cons.prems(3) entry show ?thesis by (auto simp: visits_Cons)
  next
    case (Some later)
    with Cons.prems entry have later: "finalEntry rest n = Some (k, ids)" by simp
    then have "k \<in> fst ` set rest" using finalEntry_Some by force
    with Cons.prems(1) entry have "j < k" by auto
    show ?thesis
    proof (cases "(k', n) \<in> visits rest")
      case True
      with Cons later show ?thesis by simp
    next
      case False
      with Cons.prems(3) entry have "k' = j" by (auto simp: visits_Cons)
      with \<open>j < k\<close> show ?thesis by simp
    qed
  qed
qed

text \<open>The level of the final placement is the greatest level under which the id is logged.\<close>

lemma finalEntry_Max:
  assumes sorted: "sorted_wrt (<) (map fst npl)" and fin: "finalEntry npl n = Some (k, ids)"
  shows "Max {k. (k, n) \<in> visits npl} = k" and "map_of npl k = Some ids" and "n \<in> set ids"
proof -
  let ?V = "{k. (k, n) \<in> visits npl}"
  from finalEntry_Some [OF fin] have mem: "(k, ids) \<in> set npl" "n \<in> set ids" by simp_all
  then have kV: "k \<in> ?V" by (auto simp: visits_def)
  show "Max ?V = k"
  proof (rule Max_eqI)
    show "finite ?V" by (rule finite_visit_levels)
    show "k \<in> ?V" by (rule kV)
    show "\<And>y. y \<in> ?V \<Longrightarrow> y \<le> k" using finalEntry_greatest [OF sorted fin] by simp
  qed
  have "distinct (map fst npl)" using sorted by (simp add: strict_sorted_iff)
  with mem show "map_of npl k = Some ids" by simp
  show "n \<in> set ids" by (rule mem(2))
qed

lemma finalLevel_Max:
  assumes "sorted_wrt (<) (map fst npl)"
  shows "finalLevel npl n =
     (if {k. (k, n) \<in> visits npl} = {} then None else Some (Max {k. (k, n) \<in> visits npl}))"
proof (cases "finalEntry npl n")
  case None
  then show ?thesis by (simp add: finalLevel_def finalEntry_None)
next
  case (Some entry)
  obtain k ids where entry: "entry = (k, ids)" by (cases entry)
  with Some have fin: "finalEntry npl n = Some (k, ids)" by simp
  from finalEntry_Max(1) [OF assms fin] finalEntry_Some [OF fin]
  have "Max {k. (k, n) \<in> visits npl} = k" and "{k. (k, n) \<in> visits npl} \<noteq> {}"
    by (auto simp: visits_def)
  with fin show ?thesis by (simp add: finalLevel_def)
qed

lemma position_at_finalLevel:
  assumes sorted: "sorted_wrt (<) (map fst npl)" and lv: "finalLevel npl n = Some k"
  shows "\<exists>ids. map_of npl k = Some ids \<and> n \<in> set ids
     \<and> placeLevels hs vs npl Map.empty n = Some (slot hs vs k (length ids) (lastIndex ids n))"
proof -
  from lv obtain ids where fin: "finalEntry npl n = Some (k, ids)"
    by (auto simp: finalLevel_def)
  from finalEntry_Max(2,3) [OF sorted fin] fin show ?thesis
    by (simp add: placeLevels_apply)
qed


section \<open>Levels of start nodes and along edges\<close>


lemma computeLevels_finalLevel:
  assumes "computeLevels d ns es = Inr st"
  shows "finalLevel (nodesPerLevel st) n =
     (if depthsOf es (startNodes ns es) n = {} then None
      else Some (Max (depthsOf es (startNodes ns es) n)))"
  using finalLevel_Max [OF computeLevels_sorted [OF assms], of n] computeLevels_visits [OF assms]
  by (simp add: depthsOf_def)

text \<open>
  The level of the final placement is the level \<^verbatim>\<open>levels\<close> holds, for every id that is no
  property name of \<^verbatim>\<open>Object.prototype\<close>.
\<close>

lemma finalLevel_levels:
  assumes "computeLevels d ns es = Inr st" and "n \<notin> set objectPrototypeKeys"
  shows "levels st n = map_option Level (finalLevel (nodesPerLevel st) n)"
  using computeLevels_levels [OF assms] computeLevels_finalLevel [OF assms(1), of n] by simp

lemma position_Some:
  assumes run: "computeLevels d ns es = Inr st" and lv: "finalLevel (nodesPerLevel st) n = Some k"
  shows "\<exists>ids. map_of (nodesPerLevel st) k = Some ids \<and> n \<in> set ids
     \<and> placeLevels hs vs (nodesPerLevel st) Map.empty n
         = Some (slot hs vs k (length ids) (lastIndex ids n))"
  using position_at_finalLevel [OF computeLevels_sorted [OF run] lv] .

lemma position_y:
  assumes run: "computeLevels d ns es = Inr st"
    and reached: "depthsOf es (startNodes ns es) n \<noteq> {}"
  shows "\<exists>p. placeLevels hs vs (nodesPerLevel st) Map.empty n = Some p
     \<and> pos_y p = real (Max (depthsOf es (startNodes ns es) n)) * vs"
proof -
  from computeLevels_finalLevel [OF run, of n] reached
  have "finalLevel (nodesPerLevel st) n = Some (Max (depthsOf es (startNodes ns es) n))"
    by simp
  from position_Some [OF run this, of hs vs] show ?thesis by (auto simp: slot_def)
qed


lemma startNodes_iff:
  "r \<in> set (startNodes ns es) \<longleftrightarrow> r \<in> node_id ` set ns \<and> (\<forall>e \<in> set es. target e \<noteq> r)"
  by (auto simp: startNodes_def list_ex_iff)

lemma root_depths:
  assumes "r \<in> set rs" and "\<forall>e \<in> set es. target e \<noteq> r"
  shows "depthsOf es rs r = {0}"
proof -
  have "k = 0" if "(k, r) \<in> reachedAt es rs" for k
    using that assms(2) by (cases rule: reachedAt.cases) auto
  moreover have "(0, r) \<in> reachedAt es rs" using assms(1) by (rule reachedAt.root)
  ultimately show ?thesis by (auto simp: depthsOf_def)
qed





lemma root_placed:
  assumes run: "computeLevels d ns es = Inr st" and n: "n \<in> set ns"
    and root: "\<forall>e \<in> set es. target e \<noteq> node_id n"
  shows "(node_id n \<notin> set objectPrototypeKeys \<longrightarrow> levels st (node_id n) = Some (Level 0))
     \<and> (\<exists>pos p. calculateNodePositions d hs vs ns es = Inr pos
           \<and> pos (node_id n) = Some p \<and> pos_y p = 0)"
proof -
  have "node_id n \<in> set (startNodes ns es)" using n root by (simp add: startNodes_iff)
  then have depths: "depthsOf es (startNodes ns es) (node_id n) = {0}"
    using root by (rule root_depths)
  then have lv: "levels st (node_id n) = Some (Level 0)"
    if "node_id n \<notin> set objectPrototypeKeys"
    using computeLevels_levels [OF run that] by simp
  from position_y [OF run, of "node_id n" hs vs] depths obtain p
    where "placeLevels hs vs (nodesPerLevel st) Map.empty (node_id n) = Some p" "pos_y p = 0"
    by auto
  moreover have "calculateNodePositions d hs vs ns es
      = Inr (placeLevels hs vs (nodesPerLevel st) Map.empty)"
    using run by (simp add: calculateNodePositions_def)
  ultimately show ?thesis using lv by simp
qed

text \<open>A path that starts with \<^verbatim>\<open>src\<close>, as every node id does, is no property name of \<^verbatim>\<open>Object.prototype\<close>.\<close>

lemma src_path_not_prototype:
  "startsWith i ''src'' \<Longrightarrow> i \<notin> set objectPrototypeKeys"
  by (auto simp: startsWith_def objectPrototypeKeys_def)

text \<open>
  C3, as the code has it. Whenever the level computation returns, every node that is
  the target of no edge is placed at the vertical position 0 by
  \<open>calculateNodePositions\<close>, and has level 0 in \<^verbatim>\<open>levels\<close> when its id is no property name
  of \<^verbatim>\<open>Object.prototype\<close>. The computation returns, once the call stack is deep enough,
  for every input in which no start node reaches a cycle, and for no other input.
\<close>

theorem root_level_zero:
  assumes n: "n \<in> set ns" and root: "\<forall>e \<in> set es. target e \<noteq> node_id n"
  shows "((\<forall>r \<in> set (startNodes ns es). \<not> reachesCycle es r)
            \<longrightarrow> (\<exists>d st. computeLevels d ns es = Inr st))
     \<and> (\<forall>d st. computeLevels d ns es = Inr st \<longrightarrow>
           (node_id n \<notin> set objectPrototypeKeys \<longrightarrow> levels st (node_id n) = Some (Level 0))
           \<and> (\<exists>pos p. calculateNodePositions d hs vs ns es = Inr pos
                 \<and> pos (node_id n) = Some p \<and> pos_y p = 0))"
  using computeLevels_returns [of ns es] root_placed [OF _ n root, of _ _ hs vs] by blast


theorem root_level_zero_witness:
  "\<exists>d st. computeLevels d diamondNodes diamondEdges = Inr st
     \<and> levels st ''r'' = Some (Level 0)
     \<and> (\<exists>pos p. calculateNodePositions d defaultHorizontalSpacing defaultVerticalSpacing
            diamondNodes diamondEdges = Inr pos \<and> pos ''r'' = Some p \<and> pos_y p = 0)"
proof -
  have n: "nodeWithId ''r'' \<in> set diamondNodes" by (simp add: diamondNodes_def)
  have root: "\<forall>e \<in> set diamondEdges. target e \<noteq> node_id (nodeWithId ''r'')"
    by (simp add: diamondEdges_def edgeFromTo_def nodeWithId_def mkNode2_def)
  have id: "node_id (nodeWithId ''r'') = ''r''" by (simp add: nodeWithId_def mkNode2_def)
  have plain: "''r'' \<notin> set objectPrototypeKeys" by (simp add: objectPrototypeKeys_def)
  have free: "\<forall>r \<in> set (startNodes diamondNodes diamondEdges). \<not> reachesCycle diamondEdges r"
    using acyclic_no_reachesCycle [OF diamond_acyclic] by blast
  note main = root_level_zero [OF n root, of defaultHorizontalSpacing defaultVerticalSpacing]
  from main free obtain d st where run: "computeLevels d diamondNodes diamondEdges = Inr st"
    by blast
  from main run plain show ?thesis unfolding id by blast
qed

theorem root_level_zero_counterexample:
  "''src/a.ts'' \<in> set (startNodes cyclicNodes cyclicEdges)
   \<and> (\<forall>d. computeLevels d cyclicNodes cyclicEdges = Inl RangeError)
   \<and> (\<forall>d. calculateNodePositions d defaultHorizontalSpacing defaultVerticalSpacing
          cyclicNodes cyclicEdges = Inl RangeError)"
proof -
  have start: "''src/a.ts'' \<in> set (startNodes cyclicNodes cyclicEdges)"
    by (simp add: cyclic_start)
  have levels: "computeLevels d cyclicNodes cyclicEdges = Inl RangeError" for d
    using start cyclic_reachesCycle by (rule computeLevels_overflow)
  then have "calculateNodePositions d defaultHorizontalSpacing defaultVerticalSpacing
          cyclicNodes cyclicEdges = Inl RangeError" for d
    by (simp add: calculateNodePositions_def)
  with start levels show ?thesis by simp
qed











text \<open>
  The slip left out above: a dependency named like a property of \<^verbatim>\<open>Object.prototype\<close> is
  placed one level below the file, but its level in \<^verbatim>\<open>levels\<close> is \<^verbatim>\<open>NaN\<close>.
\<close>

lemma prototype_name_level:
  "\<exists>st pos. computeLevels 2 [nodeWithId ''src/a.ts''] [edgeFromTo ''src/a.ts'' ''constructor'']
       = Inr st
     \<and> calculateNodePositions 2 defaultHorizontalSpacing defaultVerticalSpacing
          [nodeWithId ''src/a.ts''] [edgeFromTo ''src/a.ts'' ''constructor''] = Inr pos
     \<and> levels st ''src/a.ts'' = Some (Level 0)
     \<and> levels st ''constructor'' = Some NaN
     \<and> pos ''constructor'' = Some \<lparr>pos_x = 100, pos_y = 200\<rparr>"
proof -
  let ?st = "\<lparr>levels = [''src/a.ts'' \<mapsto> Level 0, ''constructor'' \<mapsto> NaN],
          nodesPerLevel = [(0, [''src/a.ts'']), (1, [''constructor''])]\<rparr>"
  have run: "computeLevels 2 [nodeWithId ''src/a.ts''] [edgeFromTo ''src/a.ts'' ''constructor'']
      = Inr ?st"
    by (simp add: computeLevels_def startNodes_def nodeWithId_def mkNode2_def edgeFromTo_def
        emptyLayout_def numeral_2_eq_2 recordVisit_def childEdges_def objectPrototypeKeys_def)
  have "calculateNodePositions 2 defaultHorizontalSpacing defaultVerticalSpacing
      [nodeWithId ''src/a.ts''] [edgeFromTo ''src/a.ts'' ''constructor'']
      = Inr [''src/a.ts'' \<mapsto> \<lparr>pos_x = 0, pos_y = 0\<rparr>,
             ''constructor'' \<mapsto> \<lparr>pos_x = 100, pos_y = 200\<rparr>]"
    by (simp add: calculateNodePositions_def run placeLevel_def STAGGER_OFFSET_def
        defaultVerticalSpacing_def)
  with run show ?thesis by simp
qed

section \<open>The x-coordinates of a level\<close>















section \<open>Values without files, and the empty tree\<close>

lemma fold_max_ge: "(a::nat) \<le> fold max xs a"
proof (induction xs arbitrary: a)
  case Nil
  then show ?case by simp
next
  case (Cons x xs)
  have "a \<le> max x a" by simp
  also have "\<dots> \<le> fold max xs (max x a)" by (rule Cons.IH)
  finally show ?case by simp
qed

lemma fold_max_mem: "x \<in> set xs \<Longrightarrow> (x::nat) \<le> fold max xs a"
proof (induction xs arbitrary: a)
  case Nil
  then show ?case by simp
next
  case (Cons y ys)
  show ?case
  proof (cases "x = y")
    case True
    have "x \<le> max y a" using True by simp
    also have "\<dots> \<le> fold max ys (max y a)" by (rule fold_max_ge)
    finally show ?thesis by simp
  next
    case False
    with Cons show ?thesis by simp
  qed
qed

lemma snd_indexed: "snd ` set (indexed xs) = set xs"
  by (force simp: indexed_def set_conv_nth image_iff)

lemma indexed_Nil: "indexed [] = []"
  by (simp add: indexed_def)

lemma indexed_Cons: "\<exists>rest. indexed (x # xs) = (''0'', x) # rest"
  by (simp add: indexed_def upt_rec [of 0])

lemma forEachEntry_skip:
  "\<forall>v \<in> snd ` set entries. \<forall>p st. processDirectory d rnd v p st = Done st
     \<Longrightarrow> forEachEntry d rnd parentPath entries st = Done st"
  by (induction entries) (auto simp: Let_def)

lemma processDirectory_skippable:
  "skippable v \<Longrightarrow> nesting v \<le> d \<Longrightarrow> processDirectory d rnd v path st = Done st"
proof (induction v arbitrary: d path st)
  case YNull
  then show ?case by simp
next
  case (YBool b)
  then show ?case by (cases d) simp_all
next
  case (YNum n)
  then show ?case by (cases d) simp_all
next
  case (YStr s)
  then show ?case by (cases d) (simp_all add: indexed_Nil)
next
  case (YSeq vs)
  from YSeq.prems obtain d' where d: "d = Suc d'" by (cases d) auto
  have "\<forall>v \<in> snd ` set (indexed vs). \<forall>p st. processDirectory d' rnd v p st = Done st"
  proof (intro ballI allI)
    fix v p st assume "v \<in> snd ` set (indexed vs)"
    then have v: "v \<in> set vs" by (simp add: snd_indexed)
    then have "nesting v \<le> fold max (map nesting vs) 0" by (intro fold_max_mem) simp
    with YSeq.prems d have "nesting v \<le> d'" by simp
    with v YSeq show "processDirectory d' rnd v p st = Done st" by simp
  qed
  then show ?case unfolding d by (simp add: forEachEntry_skip)
next
  case (YMap m)
  from YMap.prems obtain d' where d: "d = Suc d'" by (cases d) auto
  have "\<forall>v \<in> snd ` set m. \<forall>p st. processDirectory d' rnd v p st = Done st"
  proof (intro ballI allI)
    fix v p st assume "v \<in> snd ` set m"
    then obtain kv where kv: "kv \<in> set m" "v = snd kv" by auto
    then have "nesting v \<le> fold max (map (\<lambda>kv. nesting (snd kv)) m) 0"
      by (intro fold_max_mem) auto
    with YMap.prems d have "nesting v \<le> d'" by simp
    moreover have "skippable v" using YMap.prems(1) kv by auto
    moreover have "v \<in> Basic_BNFs.snds kv"
    proof (cases kv)
      case (Pair a b)
      with kv(2) show ?thesis by simp
    qed
    ultimately show "processDirectory d' rnd v p st = Done st" using YMap.IH kv(1) by blast
  qed
  moreover have "\<not> isYamlFile (YMap m)" using YMap.prems(1) by simp
  ultimately show ?case unfolding d by (simp add: forEachEntry_skip del: isYamlFile.simps)
qed

lemma processDirectory_char:
  "processDirectory d rnd (YStr [c]) path st = Threw RangeError"
proof (induction d arbitrary: path st)
  case 0
  then show ?case by simp
next
  case (Suc d)
  then show ?case by (simp add: indexed_def)
qed

lemma processDirectory_string:
  "processDirectory d rnd (YStr (c # s)) path st = Threw RangeError"
proof (cases d)
  case 0
  then show ?thesis by simp
next
  case (Suc d')
  obtain rest where "indexed (map (\<lambda>c. YStr [c]) (c # s)) = (''0'', YStr [c]) # rest"
    using indexed_Cons [of "YStr [c]" "map (\<lambda>c. YStr [c]) s"] by auto
  then show ?thesis unfolding Suc by (simp add: processDirectory_char)
qed

text \<open>
  C7, as the code has it. A value that is no file record and holds none is passed over
  in silence when it is a number, a boolean, the empty string, or an array or a mapping
  of such values, once the call stack covers its nesting. A non-empty string is not
  passed over: its entries are its characters, each a string of one character whose
  only entry is itself, and the traversal exhausts every call stack. \<^verbatim>\<open>null\<close> throws a
  \<open>TypeError\<close>.
\<close>

theorem processDirectory_skips_values_without_files:
  "(skippable v \<and> nesting v \<le> d \<longrightarrow> processDirectory d rnd v path st = Done st)
   \<and> processDirectory d rnd (YStr (c # s)) path st = Threw RangeError
   \<and> processDirectory (Suc d) rnd YNull path st = Threw TypeError"
  using processDirectory_skippable [of v d rnd path st] processDirectory_string [of d rnd c s path st]
  by simp

theorem processDirectory_skips_values_without_files_witness:
  "skippable (YMap [(''a'', YNum 3), (''b'', YSeq [YBool True, YStr []])])
   \<and> processDirectory 3 (\<lambda>i. 0) (YMap [(''a'', YNum 3), (''b'', YSeq [YBool True, YStr []])])
        ''src'' emptyFlatten = Done emptyFlatten"
proof -
  let ?v = "YMap [(''a'', YNum 3), (''b'', YSeq [YBool True, YStr []])]"
  have "skippable ?v \<and> nesting ?v \<le> 3" by simp
  with processDirectory_skips_values_without_files [of ?v 3 "\<lambda>i. 0" "''src''" emptyFlatten]
  show ?thesis by blast
qed

text \<open>A file record without \<^verbatim>\<open>dependency\<close> and \<^verbatim>\<open>api\<close> is traversed as a directory, into its strings.\<close>

lemma malformed_leaf_overflow:
  "processDirectory d rnd (YMap [(''content'', YStr ''x''), (''agent'', YStr ''A'')]) path st
     = Threw RangeError"
  by (cases d) (simp_all add: processDirectory_string)

theorem generateNodesAndEdges_string_counterexample:
  "\<forall>d. generateNodesAndEdges d (\<lambda>i. 0) stringTree = Threw RangeError"
proof
  fix d
  show "generateNodesAndEdges d (\<lambda>i. 0) stringTree = Threw RangeError"
  proof (cases d)
    case 0
    then show ?thesis by (simp add: generateNodesAndEdges_def stringTree_def)
  next
    case (Suc d')
    then show ?thesis
      by (simp add: generateNodesAndEdges_def stringTree_def processDirectory_string)
  qed
qed

lemma layout_nothing: "calculateNodePositions d hs vs [] [] = Inr Map.empty"
  by (simp add: calculateNodePositions_def computeLevels_def startNodes_def emptyLayout_def)

lemma layout_structure_only:
  "calculateNodePositions (Suc d) 500 250
         [mkNode2 ''src/structure.yaml'' ''structure.yaml'' None ''yaml''] []
       = Inr [''src/structure.yaml'' \<mapsto> \<lparr>pos_x = 0, pos_y = 0\<rparr>]"
  by (simp add: calculateNodePositions_def computeLevels_def startNodes_def emptyLayout_def
      mkNode2_def recordVisit_def childEdges_def placeLevel_def)

lemma generateNodesAndEdges2_emptyTree:
  "generateNodesAndEdges2 (Suc d) emptyTree =
       Done \<lparr>g_nodes = [mkNode2 ''src/structure.yaml'' ''structure.yaml'' None ''yaml''],
             g_edges = [], g_agents = [None]\<rparr>"
  by (simp add: generateNodesAndEdges2_def emptyTree_def layoutGraph_def layout_structure_only
      setAdd_def applyPositions_def) (simp add: mkNode2_def)

text \<open>
  C8, as the code has it. For the empty tree the flattener over \<open>processDirectory\<close>
  returns no node, no edge and no agent, and the layout of nothing is the empty position
  map. The second \<open>generateNodesAndEdges\<close> creates the node of \<^verbatim>\<open>src/structure.yaml\<close>
  whatever the tree holds: it returns that node, no edge and the agent set that holds
  \<^verbatim>\<open>undefined\<close>, and its layout puts the node at the origin.
\<close>

theorem empty_tree:
  "generateNodesAndEdges (Suc d) rnd emptyTree = Done \<lparr>g_nodes = [], g_edges = [], g_agents = []\<rparr>
   \<and> calculateNodePositions d hs vs [] [] = Inr Map.empty
   \<and> generateNodesAndEdges2 (Suc d) emptyTree =
       Done \<lparr>g_nodes = [mkNode2 ''src/structure.yaml'' ''structure.yaml'' None ''yaml''],
             g_edges = [], g_agents = [None]\<rparr>
   \<and> calculateNodePositions (Suc d) 500 250
         [mkNode2 ''src/structure.yaml'' ''structure.yaml'' None ''yaml''] []
       = Inr [''src/structure.yaml'' \<mapsto> \<lparr>pos_x = 0, pos_y = 0\<rparr>]"
proof -
  have "generateNodesAndEdges (Suc d) rnd emptyTree
      = Done \<lparr>g_nodes = [], g_edges = [], g_agents = []\<rparr>"
    by (simp add: generateNodesAndEdges_def emptyTree_def layoutGraph_def layout_nothing
        emptyFlatten_def applyPositions_def)
  then show ?thesis
    using layout_nothing generateNodesAndEdges2_emptyTree layout_structure_only by simp
qed

theorem empty_tree_counterexample:
  "\<exists>g. generateNodesAndEdges2 1 emptyTree = Done g \<and> g_nodes g \<noteq> [] \<and> g_agents g \<noteq> []"
  using generateNodesAndEdges2_emptyTree [of 0] by simp

section \<open>A dependency on a path that is no file\<close>










lemma dangling_flat:
  "processDirectory 2 rnd danglingSrc ''src'' emptyFlatten =
   Done \<lparr>fs_nodes = [danglingNode rnd],
         fs_edges = [edgeFromTo ''src/a.ts'' ''src/missing.ts''],
         fs_agents = [Some (YStr ''B'')], fs_drawn = 2\<rparr>"
  by (simp add: danglingSrc_def numeral_2_eq_2 yamlFile_def processFile_def emptyFlatten_def
      Let_def fileNameOf_def getFileExtension_def pop_def or_empty_def setAdd_def
      edgeFromTo_def danglingNode_def)

lemma dangling_layout:
  "calculateNodePositions 2 hs vs [danglingNode rnd] [edgeFromTo ''src/a.ts'' ''src/missing.ts'']
     = Inr [''src/a.ts'' \<mapsto> \<lparr>pos_x = 0, pos_y = 0\<rparr>,
            ''src/missing.ts'' \<mapsto> \<lparr>pos_x = STAGGER_OFFSET, pos_y = vs\<rparr>]"
  by (simp add: calculateNodePositions_def computeLevels_def startNodes_def emptyLayout_def
      danglingNode_def edgeFromTo_def numeral_2_eq_2 recordVisit_def childEdges_def
      placeLevel_def)




lemma dangling_flat2:
  "forEachEntry2 [(''a.ts'', yamlFile ''x'' [''src/missing.ts''] ''B'')] st =
     Done (st\<lparr>fs_nodes := fs_nodes st @
                 [mkNode2 ''src/a.ts'' ''a.ts'' (Some (yamlFile ''x'' [''src/missing.ts''] ''B'')) ''ts''],
               fs_edges := fs_edges st @ [\<lparr>edge_id = ''src/a.ts-src/missing.ts'',
                   source = ''src/missing.ts'', target = ''src/a.ts''\<rparr>],
               fs_agents := setAdd (Some (YStr ''B'')) (fs_agents st)\<rparr>)"
  by (simp add: processEntry2_def yamlFile_def addFile2_def Let_def
      getFileExtension_def pop_def or_empty_def)

lemma dangling_layout2:
  "calculateNodePositions 2 500 250
     [mkNode2 ''src/structure.yaml'' ''structure.yaml'' None ''yaml'',
      mkNode2 ''src/a.ts'' ''a.ts'' fd ''ts'']
     [\<lparr>edge_id = ''src/a.ts-src/missing.ts'', source = ''src/missing.ts'', target = ''src/a.ts''\<rparr>]
     = Inr [''src/structure.yaml'' \<mapsto> \<lparr>pos_x = 0, pos_y = 0\<rparr>]"
  by (simp add: calculateNodePositions_def computeLevels_def startNodes_def emptyLayout_def
      mkNode2_def numeral_2_eq_2 recordVisit_def childEdges_def placeLevel_def)

text \<open>
  The second \<open>generateNodesAndEdges\<close> on the same tree: its edge points from the absent
  path to the file, the file is no start node, and the position map holds the node of
  \<^verbatim>\<open>src/structure.yaml\<close> only.
\<close>

lemma dangling_generate2:
  "\<exists>g. generateNodesAndEdges2 2 danglingTree = Done g
     \<and> map node_id (g_nodes g) = [''src/structure.yaml'', ''src/a.ts'']
     \<and> map source (g_edges g) = [''src/missing.ts'']
     \<and> map target (g_edges g) = [''src/a.ts'']
     \<and> calculateNodePositions 2 500 250 (g_nodes g) (g_edges g)
         = Inr [''src/structure.yaml'' \<mapsto> \<lparr>pos_x = 0, pos_y = 0\<rparr>]"
proof -
  let ?fd = "Some (yamlFile ''x'' [''src/missing.ts''] ''B'')"
  let ?ns = "[mkNode2 ''src/structure.yaml'' ''structure.yaml'' None ''yaml'',
      mkNode2 ''src/a.ts'' ''a.ts'' ?fd ''ts'']"
  let ?es = "[\<lparr>edge_id = ''src/a.ts-src/missing.ts'', source = ''src/missing.ts'',
      target = ''src/a.ts''\<rparr>]"
  let ?pos = "[''src/structure.yaml'' \<mapsto> \<lparr>pos_x = 0, pos_y = 0\<rparr>]"
  have applied: "applyPositions ?pos ?ns = ?ns"
    by (simp add: applyPositions_def mkNode2_def)
  have "generateNodesAndEdges2 2 danglingTree
      = Done \<lparr>g_nodes = ?ns, g_edges = ?es, g_agents = [None, Some (YStr ''B'')]\<rparr>"
    by (simp add: generateNodesAndEdges2_def danglingTree_def danglingSrc_def dangling_flat2
        layoutGraph_def dangling_layout2 applied setAdd_def del: forEachEntry2.simps)
  moreover have "map node_id ?ns = [''src/structure.yaml'', ''src/a.ts'']"
    by (simp add: mkNode2_def)
  ultimately show ?thesis using dangling_layout2 [of ?fd] by simp
qed

section \<open>The flattener and the random start positions\<close>

lemma withoutPositions_append:
  "withoutPositions (xs @ ys) = withoutPositions xs @ withoutPositions ys"
  by (simp add: withoutPositions_def)

lemma withoutPositions_ids:
  "withoutPositions ns = withoutPositions ns' \<Longrightarrow> map node_id ns = map node_id ns'"
proof -
  assume "withoutPositions ns = withoutPositions ns'"
  then have "map node_id (withoutPositions ns) = map node_id (withoutPositions ns')" by simp
  then show ?thesis by (simp add: withoutPositions_def comp_def)
qed

lemma blankState_eq:
  "blankState st = blankState st2 \<longleftrightarrow>
     withoutPositions (fs_nodes st) = withoutPositions (fs_nodes st2)
     \<and> fs_edges st = fs_edges st2 \<and> fs_agents st = fs_agents st2"
  by (cases st; cases st2) (auto simp: blankState_def)

lemma processFile_blank:
  assumes "blankState st = blankState st2"
  shows "map_outcome blankState (processFile rnd fl p st)
     = map_outcome blankState (processFile rnd' fl p st2)"
proof -
  from assms have eq: "withoutPositions (fs_nodes st) = withoutPositions (fs_nodes st2)"
    "fs_edges st = fs_edges st2" "fs_agents st = fs_agents st2"
    by (simp_all add: blankState_eq)
  show ?thesis
  proof (cases "map_of fl ''dependency''")
    case None
    then show ?thesis by (simp add: processFile_def Let_def)
  next
    case (Some v)
    show ?thesis
    proof (cases v)
      case (YSeq deps)
      show ?thesis
      proof (cases "pushDependencyEdges p deps (fs_edges st2)")
        case (Done es')
        with Some YSeq eq show ?thesis
          by (simp add: processFile_def Let_def blankState_eq withoutPositions_append)
            (simp add: withoutPositions_def)
      qed (use Some YSeq eq in \<open>simp_all add: processFile_def Let_def\<close>)
    qed (use Some in \<open>simp_all add: processFile_def Let_def\<close>)
  qed
qed

lemma map_outcome_Done:
  "map_outcome f a = map_outcome f b \<Longrightarrow> a = Done x \<Longrightarrow> \<exists>y. b = Done y \<and> f y = f x"
  by (cases b) auto

lemma processDirectory_blank:
  "blankState st = blankState st2 \<Longrightarrow>
     map_outcome blankState (processDirectory d rnd v p st)
       = map_outcome blankState (processDirectory d rnd' v p st2)"
  "blankState st = blankState st2 \<Longrightarrow>
     map_outcome blankState (forEachEntry d rnd pp entries st)
       = map_outcome blankState (forEachEntry d rnd' pp entries st2)"
proof (induction d rnd v p st and d rnd pp entries st arbitrary: st2 and st2
    rule: processDirectory_forEachEntry.induct)
  case (1 rnd content parentPath st)
  then show ?case by simp
next
  case (2 depth rnd content parentPath st)
  show ?case
  proof (cases "isYamlFile content")
    case True
    then obtain fl where "content = YMap fl" by (cases content) auto
    with True 2(2) show ?thesis using processFile_blank by simp
  next
    case False
    show ?thesis
    proof (cases "objectEntries content")
      case (Inl e)
      with False show ?thesis by simp
    next
      case (Inr entries)
      with False 2(1) [OF False Inr 2(2)] show ?thesis by simp
    qed
  qed
next
  case (3 depth rnd parentPath st)
  then show ?case by simp
next
  case (4 depth rnd parentPath key v rest st)
  let ?newPath = "if parentPath \<noteq> [] then parentPath @ ''/'' @ key else key"
  note first = 4(1) [OF refl 4(3)]
  show ?case
  proof (cases "processDirectory depth rnd v ?newPath st")
    case (Done st1)
    from map_outcome_Done [OF first Done] obtain st1'
      where d2: "processDirectory depth rnd' v ?newPath st2 = Done st1'"
        and b: "blankState st1' = blankState st1" by blast
    from 4(2) [OF refl Done b [symmetric]] Done d2 show ?thesis by (simp add: Let_def)
  next
    case (Threw e)
    with first have "processDirectory depth rnd' v ?newPath st2 = Threw e"
      by (cases "processDirectory depth rnd' v ?newPath st2") auto
    with Threw show ?thesis by (simp add: Let_def)
  next
    case Unsupported
    with first have "processDirectory depth rnd' v ?newPath st2 = Unsupported"
      by (cases "processDirectory depth rnd' v ?newPath st2") auto
    with Unsupported show ?thesis by (simp add: Let_def)
  qed
qed

lemma startNodes_ids:
  "map node_id ns = map node_id ns' \<Longrightarrow> startNodes ns es = startNodes ns' es"
proof -
  have "startNodes ns es = filter (\<lambda>i. \<not> list_ex (\<lambda>edge. target edge = i) es) (map node_id ns)"
    for ns
    by (simp add: startNodes_def filter_map comp_def)
  then show "map node_id ns = map node_id ns' \<Longrightarrow> startNodes ns es = startNodes ns' es"
    by simp
qed

lemma layout_ids:
  "map node_id ns = map node_id ns' \<Longrightarrow>
     calculateNodePositions d hs vs ns es = calculateNodePositions d hs vs ns' es"
  by (simp add: calculateNodePositions_def computeLevels_def startNodes_ids [of ns ns'])

lemma applyPositions_ids: "map node_id (applyPositions pos ns) = map node_id ns"
  by (simp add: applyPositions_def comp_def split: option.splits)

lemma withoutPositions_applyPositions:
  "withoutPositions (applyPositions pos ns) = withoutPositions ns"
  by (simp add: applyPositions_def withoutPositions_def split: option.splits)

lemma applyPositions_nth:
  "i < length ns \<Longrightarrow> pos (node_id (ns ! i)) = Some p
     \<Longrightarrow> node_position (applyPositions pos ns ! i) = p"
  by (simp add: applyPositions_def)

lemma layoutGraph_blank:
  assumes "blankState st = blankState st2"
  shows "map_outcome blankGraph (layoutGraph d hs vs st)
     = map_outcome blankGraph (layoutGraph d hs vs st2)"
proof -
  from assms have eq: "withoutPositions (fs_nodes st) = withoutPositions (fs_nodes st2)"
    "fs_edges st = fs_edges st2" "fs_agents st = fs_agents st2"
    by (simp_all add: blankState_eq)
  have "calculateNodePositions d hs vs (fs_nodes st) (fs_edges st)
      = calculateNodePositions d hs vs (fs_nodes st2) (fs_edges st2)"
    using layout_ids [OF withoutPositions_ids [OF eq(1)]] eq(2) by simp
  then show ?thesis
    using eq by (simp add: layoutGraph_def blankGraph_def withoutPositions_applyPositions
        split: sum.splits)
qed

lemma generateNodesAndEdges_blank:
  "map_outcome blankGraph (generateNodesAndEdges d rnd t)
     = map_outcome blankGraph (generateNodesAndEdges d rnd' t)"
proof (cases "srcOf t")
  case (Inl e)
  then show ?thesis by (simp add: generateNodesAndEdges_def)
next
  case (Inr src)
  show ?thesis
  proof (cases src)
    case None
    with Inr show ?thesis by (simp add: generateNodesAndEdges_def)
  next
    case (Some v)
    note flat = processDirectory_blank(1) [OF refl, of d rnd v "''src''" emptyFlatten rnd']
    show ?thesis
    proof (cases "processDirectory d rnd v ''src'' emptyFlatten")
      case (Done st)
      from map_outcome_Done [OF flat Done] obtain st2
        where d2: "processDirectory d rnd' v ''src'' emptyFlatten = Done st2"
          and b: "blankState st2 = blankState st" by blast
      from layoutGraph_blank [OF b [symmetric]] Inr Some Done d2 show ?thesis
        by (simp add: generateNodesAndEdges_def)
    next
      case (Threw e)
      with flat have "processDirectory d rnd' v ''src'' emptyFlatten = Threw e"
        by (cases "processDirectory d rnd' v ''src'' emptyFlatten") auto
      with Inr Some Threw show ?thesis by (simp add: generateNodesAndEdges_def)
    next
      case Unsupported
      with flat have "processDirectory d rnd' v ''src'' emptyFlatten = Unsupported"
        by (cases "processDirectory d rnd' v ''src'' emptyFlatten") auto
      with Inr Some Unsupported show ?thesis by (simp add: generateNodesAndEdges_def)
    qed
  qed
qed

lemma generate_positions:
  assumes gen: "generateNodesAndEdges d rnd t = Done g"
    and layout: "calculateNodePositions d defaultHorizontalSpacing defaultVerticalSpacing
        (g_nodes g) (g_edges g) = Inr pos"
    and i: "i < length (g_nodes g)" and placed: "node_id (g_nodes g ! i) \<in> dom pos"
  shows "pos (node_id (g_nodes g ! i)) = Some (node_position (g_nodes g ! i))"
proof -
  from gen obtain v st where "processDirectory d rnd v ''src'' emptyFlatten = Done st"
    and lg: "layoutGraph d defaultHorizontalSpacing defaultVerticalSpacing st = Done g"
    by (auto simp: generateNodesAndEdges_def split: sum.splits option.splits outcome.splits
        if_splits)
  from lg obtain pos0 where pos0: "calculateNodePositions d defaultHorizontalSpacing
        defaultVerticalSpacing (fs_nodes st) (fs_edges st) = Inr pos0"
    and g: "g_nodes g = applyPositions pos0 (fs_nodes st)" "g_edges g = fs_edges st"
    by (auto simp: layoutGraph_def split: sum.splits)
  have "calculateNodePositions d defaultHorizontalSpacing defaultVerticalSpacing
        (g_nodes g) (g_edges g) = Inr pos0"
    using pos0 layout_ids [of "g_nodes g" "fs_nodes st"] g by (simp add: applyPositions_ids)
  with layout have same: "pos = pos0" by simp
  from i g have i': "i < length (fs_nodes st)" by (simp add: applyPositions_def)
  have id: "node_id (g_nodes g ! i) = node_id (fs_nodes st ! i)"
    using applyPositions_ids [of pos0 "fs_nodes st"] g(1) i'
    by (metis length_map nth_map)
  from placed obtain p where p: "pos (node_id (g_nodes g ! i)) = Some p" by auto
  with same id have p0: "pos0 (node_id (fs_nodes st ! i)) = Some p" by simp
  have "node_position (applyPositions pos0 (fs_nodes st) ! i) = p"
    using i' p0 by (rule applyPositions_nth [of i "fs_nodes st" pos0 p])
  with g p show ?thesis by simp
qed

text \<open>
  C6, as the code has it. Two runs of the flattener on one tree end the same way and,
  when they return, agree on the edges, the agents and the nodes but for the positions;
  they agree on the position of every node the layout places. A node the layout does not
  place keeps the random start position of its run.
\<close>

theorem generateNodesAndEdges_deterministic_but_for_random_positions:
  "map_outcome blankGraph (generateNodesAndEdges d rnd t)
     = map_outcome blankGraph (generateNodesAndEdges d rnd' t)
   \<and> (\<forall>g g' pos i.
        generateNodesAndEdges d rnd t = Done g \<and> generateNodesAndEdges d rnd' t = Done g'
        \<and> calculateNodePositions d defaultHorizontalSpacing defaultVerticalSpacing
             (g_nodes g) (g_edges g) = Inr pos
        \<and> i < length (g_nodes g) \<and> node_id (g_nodes g ! i) \<in> dom pos
      \<longrightarrow> node_position (g_nodes g' ! i) = node_position (g_nodes g ! i))"
proof (intro conjI allI impI)
  show "map_outcome blankGraph (generateNodesAndEdges d rnd t)
     = map_outcome blankGraph (generateNodesAndEdges d rnd' t)"
    by (rule generateNodesAndEdges_blank)
next
  fix g g' pos i
  assume a: "generateNodesAndEdges d rnd t = Done g \<and> generateNodesAndEdges d rnd' t = Done g'
        \<and> calculateNodePositions d defaultHorizontalSpacing defaultVerticalSpacing
             (g_nodes g) (g_edges g) = Inr pos
        \<and> i < length (g_nodes g) \<and> node_id (g_nodes g ! i) \<in> dom pos"
  then have gen: "generateNodesAndEdges d rnd t = Done g"
    and gen': "generateNodesAndEdges d rnd' t = Done g'"
    and layout: "calculateNodePositions d defaultHorizontalSpacing defaultVerticalSpacing
             (g_nodes g) (g_edges g) = Inr pos"
    and i: "i < length (g_nodes g)" and placed: "node_id (g_nodes g ! i) \<in> dom pos"
    by simp_all
  from generateNodesAndEdges_blank [of d rnd t rnd'] gen gen'
  have blank: "withoutPositions (g_nodes g') = withoutPositions (g_nodes g)"
    and edges: "g_edges g' = g_edges g"
    by (simp_all add: blankGraph_def) (cases g; cases g'; simp)+
  from withoutPositions_ids [OF blank] have ids: "map node_id (g_nodes g') = map node_id (g_nodes g)" .
  then have len: "length (g_nodes g') = length (g_nodes g)" using map_eq_imp_length_eq by blast
  from ids i len have id: "node_id (g_nodes g' ! i) = node_id (g_nodes g ! i)"
    by (metis nth_map)
  have layout': "calculateNodePositions d defaultHorizontalSpacing defaultVerticalSpacing
             (g_nodes g') (g_edges g') = Inr pos"
    using layout layout_ids [OF ids] edges by simp
  from generate_positions [OF gen layout i placed]
    generate_positions [OF gen' layout', of i] i len id placed
  show "node_position (g_nodes g' ! i) = node_position (g_nodes g ! i)" by simp
qed

lemma dangling_generate:
  "generateNodesAndEdges 2 rnd danglingTree =
     Done \<lparr>g_nodes = [danglingNode rnd\<lparr>node_position := \<lparr>pos_x = 0, pos_y = 0\<rparr>\<rparr>],
           g_edges = [edgeFromTo ''src/a.ts'' ''src/missing.ts''],
           g_agents = [Some (YStr ''B'')]\<rparr>"
  using dangling_flat [of rnd]
    dangling_layout [of defaultHorizontalSpacing defaultVerticalSpacing rnd]
  by (simp add: generateNodesAndEdges_def danglingTree_def layoutGraph_def applyPositions_def)
    (simp add: danglingNode_def)

theorem generateNodesAndEdges_deterministic_witness:
  "\<exists>g g'. generateNodesAndEdges 2 (\<lambda>i. 0) danglingTree = Done g
     \<and> generateNodesAndEdges 2 (\<lambda>i. 1 / 2) danglingTree = Done g'
     \<and> node_position (g_nodes g' ! 0) = node_position (g_nodes g ! 0)"
proof -
  let ?g = "\<lambda>rnd. \<lparr>g_nodes = [danglingNode rnd\<lparr>node_position := \<lparr>pos_x = 0, pos_y = 0\<rparr>\<rparr>],
           g_edges = [edgeFromTo ''src/a.ts'' ''src/missing.ts''],
           g_agents = [Some (YStr ''B'')]\<rparr>"
  let ?pos = "[''src/a.ts'' \<mapsto> \<lparr>pos_x = 0, pos_y = 0\<rparr>,
            ''src/missing.ts'' \<mapsto> \<lparr>pos_x = STAGGER_OFFSET, pos_y = defaultVerticalSpacing\<rparr>]"
  have layout: "calculateNodePositions 2 defaultHorizontalSpacing defaultVerticalSpacing
      (g_nodes (?g (\<lambda>i. 0))) (g_edges (?g (\<lambda>i. 0))) = Inr ?pos"
    using dangling_layout [of defaultHorizontalSpacing defaultVerticalSpacing "\<lambda>i. 0"]
      layout_ids [of "g_nodes (?g (\<lambda>i. 0))" "[danglingNode (\<lambda>i. 0)]"]
    by simp
  have placed: "node_id (g_nodes (?g (\<lambda>i. 0)) ! 0) \<in> dom ?pos"
    by (simp add: danglingNode_def)
  have "node_position (g_nodes (?g (\<lambda>i. 1 / 2)) ! 0) = node_position (g_nodes (?g (\<lambda>i. 0)) ! 0)"
    using generateNodesAndEdges_deterministic_but_for_random_positions
      [of 2 "\<lambda>i. 0" danglingTree "\<lambda>i. 1 / 2"]
      dangling_generate [of "\<lambda>i. 0"] dangling_generate [of "\<lambda>i. 1 / 2"] layout placed
    by (metis (no_types, lifting) length_Cons zero_less_Suc select_convs(1))
  then show ?thesis using dangling_generate by blast
qed

lemma mutual_flat:
  "\<exists>st. processDirectory 2 rnd
       (YMap [(''a.ts'', yamlFile ''x'' [''src/b.ts''] ''A''),
              (''b.ts'', yamlFile ''y'' [''src/a.ts''] ''B'')]) ''src'' emptyFlatten = Done st
     \<and> map node_id (fs_nodes st) = [''src/a.ts'', ''src/b.ts'']
     \<and> map node_position (fs_nodes st)
         = [\<lparr>pos_x = rnd 0 * 500, pos_y = rnd 1 * 500\<rparr>,
            \<lparr>pos_x = rnd 2 * 500, pos_y = rnd 3 * 500\<rparr>]
     \<and> fs_edges st = [edgeFromTo ''src/a.ts'' ''src/b.ts'', edgeFromTo ''src/b.ts'' ''src/a.ts'']"
  by (simp add: numeral_2_eq_2 yamlFile_def processFile_def emptyFlatten_def Let_def
      edgeFromTo_def numeral_3_eq_3)

lemma no_start_layout:
  assumes "\<forall>n \<in> set ns. \<exists>e \<in> set es. target e = node_id n"
  shows "calculateNodePositions d hs vs ns es = Inr Map.empty"
proof -
  from assms have "startNodes ns es = []"
    by (auto simp: startNodes_def list_ex_iff filter_empty_conv)
  then show ?thesis by (simp add: calculateNodePositions_def computeLevels_def emptyLayout_def)
qed

lemma applyPositions_empty: "applyPositions Map.empty ns = ns"
  by (simp add: applyPositions_def)

lemma mutual_generate:
  "\<exists>g. generateNodesAndEdges 2 rnd mutualTree = Done g
     \<and> map node_position (g_nodes g)
         = [\<lparr>pos_x = rnd 0 * 500, pos_y = rnd 1 * 500\<rparr>,
            \<lparr>pos_x = rnd 2 * 500, pos_y = rnd 3 * 500\<rparr>]"
proof -
  let ?src = "YMap [(''a.ts'', yamlFile ''x'' [''src/b.ts''] ''A''),
              (''b.ts'', yamlFile ''y'' [''src/a.ts''] ''B'')]"
  from mutual_flat [of rnd] obtain st
    where flat: "processDirectory 2 rnd ?src ''src'' emptyFlatten = Done st"
    and ids: "map node_id (fs_nodes st) = [''src/a.ts'', ''src/b.ts'']"
    and ps: "map node_position (fs_nodes st)
         = [\<lparr>pos_x = rnd 0 * 500, pos_y = rnd 1 * 500\<rparr>,
            \<lparr>pos_x = rnd 2 * 500, pos_y = rnd 3 * 500\<rparr>]"
    and es: "fs_edges st = [edgeFromTo ''src/a.ts'' ''src/b.ts'', edgeFromTo ''src/b.ts'' ''src/a.ts'']"
    by (elim exE conjE)
  have "set (map node_id (fs_nodes st)) = {''src/a.ts'', ''src/b.ts''}"
    unfolding ids by simp
  then have "\<forall>n \<in> set (fs_nodes st). node_id n = ''src/a.ts'' \<or> node_id n = ''src/b.ts''"
    by auto
  then have "\<forall>n \<in> set (fs_nodes st). \<exists>e \<in> set (fs_edges st). target e = node_id n"
    unfolding es by (auto simp: edgeFromTo_def)
  then have layout: "calculateNodePositions 2 defaultHorizontalSpacing defaultVerticalSpacing
      (fs_nodes st) (fs_edges st) = Inr Map.empty"
    by (rule no_start_layout)
  have src: "srcOf mutualTree = Inr (Some ?src)" by (simp add: mutualTree_def)
  have "generateNodesAndEdges 2 rnd mutualTree
     = Done \<lparr>g_nodes = fs_nodes st, g_edges = fs_edges st, g_agents = fs_agents st\<rparr>"
    unfolding generateNodesAndEdges_def src
    by (simp only: flat layout layoutGraph_def applyPositions_empty sum.case option.case
        outcome.case)
  with ps show ?thesis by simp
qed

theorem generateNodesAndEdges_random_counterexample:
  "\<exists>g g'. generateNodesAndEdges 2 (\<lambda>i. 0) mutualTree = Done g
     \<and> generateNodesAndEdges 2 (\<lambda>i. 1 / 2) mutualTree = Done g'
     \<and> map node_position (g_nodes g) = [\<lparr>pos_x = 0, pos_y = 0\<rparr>, \<lparr>pos_x = 0, pos_y = 0\<rparr>]
     \<and> map node_position (g_nodes g')
         = [\<lparr>pos_x = 250, pos_y = 250\<rparr>, \<lparr>pos_x = 250, pos_y = 250\<rparr>]
     \<and> g \<noteq> g'"
proof -
  from mutual_generate [of "\<lambda>i. 0"] obtain g
    where g: "generateNodesAndEdges 2 (\<lambda>i. 0) mutualTree = Done g"
      and gp: "map node_position (g_nodes g) = [\<lparr>pos_x = 0, pos_y = 0\<rparr>, \<lparr>pos_x = 0, pos_y = 0\<rparr>]"
    by (elim exE conjE) simp
  from mutual_generate [of "\<lambda>i. 1 / 2"] obtain g'
    where g': "generateNodesAndEdges 2 (\<lambda>i. 1 / 2) mutualTree = Done g'"
      and gp': "map node_position (g_nodes g')
         = [\<lparr>pos_x = 250, pos_y = 250\<rparr>, \<lparr>pos_x = 250, pos_y = 250\<rparr>]"
    by (elim exE conjE) simp
  have "map node_position (g_nodes g) \<noteq> map node_position (g_nodes g')"
    unfolding gp gp' by simp
  then have ne: "g \<noteq> g'" by auto
  show ?thesis
    by (rule exI [of _ g], rule exI [of _ g']) (simp only: g g' gp gp' ne simp_thms)
qed

end
